theory Spec2Isabelle
  imports Main "HOL-Library.Char_ord" "HOL-Library.List_Lexorder"
begin

section \<open>The armor set optimizer of the loadout builder\<close>

text \<open>
  A shallow embedding of the process worker of the loadout builder: the stat
  resolver \<open>getStatValuesWithMWProcess\<close>, the ordered set tracker
  \<open>insertIntoSetTracker\<close> and the enumeration \<open>process\<close>. JavaScript numbers
  are modelled as \<open>int\<close> (every stat, tier, hash and power the optimizer handles is
  an integer), strings as \<open>string\<close> with the lexicographic order on character
  codes, arrays as lists, and in-place mutation as explicit state passing.
\<close>

subsection \<open>Data model\<close>

datatype StatTypes = Mobility | Resilience | Recovery | Discipline | Intellect | Strength

text \<open>\<open>MinMax\<close> is \<open>{min, max}\<close> and \<open>MinMaxIgnored\<close> adds \<open>ignored\<close>; the
  fields are named \<open>min_tier\<close> and \<open>max_tier\<close> here, away from the functions
  \<open>min\<close> and \<open>max\<close> of HOL.\<close>

record MinMax =
  min_tier :: int
  max_tier :: int

record MinMaxIgnored = MinMax +
  ignored :: bool

text \<open>A plug of a socket: \<open>stats\<close> is optional and maps a stat hash to a bonus.\<close>

record ProcessPlug =
  plugItemHash :: int
  stats :: "(int \<rightharpoonup> int) option"

record ProcessSocket =
  plug :: "ProcessPlug option"

datatype DestinySocketCategoryStyle =
  Unknown | Reusable | Consumable | Unlockable | Intrinsic | EnergyMeter | LargePerk
  | Abilities | Supers

record ProcessSocketCategory =
  categoryStyle :: DestinySocketCategoryStyle
  sockets :: "ProcessSocket list"

record ProcessSockets =
  sockets :: "ProcessSocket list"
  categories :: "ProcessSocketCategory list"

text \<open>
  The declaration of \<open>ProcessItem\<close> is not among the sources at hand. The code
  only ever tests \<open>item.energy\<close> for truthiness, so the field is modelled as the
  JavaScript value it may hold under either reading of the spec's "optional
  energy-capacity indicator": absent (null or undefined), a number (truthy when
  not zero), or an object carrying a value (always truthy; "it can have value 0"
  in the words of the source comment).
\<close>

datatype Energy = NoEnergy | EnergyNumber int | EnergyObject int

fun truthyEnergy :: "Energy \<Rightarrow> bool" where
  "truthyEnergy NoEnergy = False"
| "truthyEnergy (EnergyNumber n) = (n \<noteq> 0)"
| "truthyEnergy (EnergyObject v) = True"

text \<open>
  An armor item. \<open>itemId\<close> is the field \<open>id\<close>. \<open>equippingLabel\<close> is an optional
  string. \<open>baseStats\<close> is indexed by stat hash; the items handed to the optimizer
  carry a number for every hash it asks for, so the lookup is a total function.
\<close>

record ProcessItem =
  itemId :: string
  equippingLabel :: "string option"
  basePower :: int
  baseStats :: "int \<Rightarrow> int"
  sockets :: "ProcessSockets option"
  energy :: Energy

text \<open>The truthiness of \<open>item.equippingLabel\<close>: defined and not the empty string.\<close>

definition hasLabel :: "ProcessItem \<Rightarrow> bool" where
  "hasLabel item = (case equippingLabel item of None \<Rightarrow> False | Some l \<Rightarrow> l \<noteq> [])"

text \<open>
  \<open>IntermediateProcessArmorSet\<close> holds the five items, \<open>ProcessArmorSet\<close> their
  identifiers; both carry the stats object, a number for each of the six stats.
\<close>

record 'a ArmorSet =
  armor :: "'a list"
  stats :: "StatTypes \<Rightarrow> int"

type_synonym IntermediateProcessArmorSet = "ProcessItem ArmorSet"
type_synonym ProcessArmorSet = "string ArmorSet"

record StatMixGroup =
  statMix :: string
  armorSets :: "IntermediateProcessArmorSet list"

record TierGroup =
  tier :: int
  statMixes :: "StatMixGroup list"

type_synonym SetTracker = "TierGroup list"

datatype error = TypeError

subsection \<open>The stat resolver\<close>

text \<open>
  \<open>baseStats[statHash] += 2\<close> for every requested hash, in order (a hash that
  is requested twice is raised twice).
\<close>

definition addFlatMasterwork :: "int list \<Rightarrow> (int \<Rightarrow> int) \<Rightarrow> (int \<Rightarrow> int)" where
  "addFlatMasterwork orderedStatValues bs =
     fold (\<lambda>statHash b. b(statHash := b statHash + 2)) orderedStatValues bs"

text \<open>
  The plug identifiers of the sockets of the energy-meter category:
  \<open>socket.plug?.plugItemHash ?? NaN\<close>, the \<open>NaN\<close>s filtered out, and the empty
  list when the item has no such category.
\<close>

definition masterworkSocketHashes :: "ProcessSockets \<Rightarrow> int list" where
  "masterworkSocketHashes s =
     (case find (\<lambda>category. categoryStyle category = EnergyMeter) (categories s) of
        None \<Rightarrow> []
      | Some category \<Rightarrow>
          List.map_filter (\<lambda>socket. map_option plugItemHash (plug socket))
            (ProcessSocketCategory.sockets category))"

text \<open>One socket of the plug branch: the bonuses of a plug that has stats and whose
  hash is among the masterwork hashes are added, stat by stat, when truthy.\<close>

definition addPlugStats :: "int list \<Rightarrow> int list \<Rightarrow> ProcessSocket \<Rightarrow> (int \<Rightarrow> int) \<Rightarrow> (int \<Rightarrow> int)" where
  "addPlugStats orderedStatValues mwHashes socket bs =
     (case plug socket of
        None \<Rightarrow> bs
      | Some p \<Rightarrow>
          (case ProcessPlug.stats p of
             None \<Rightarrow> bs
           | Some plugStats \<Rightarrow>
               if plugItemHash p \<in> set mwHashes then
                 fold (\<lambda>statHash b.
                         (case plugStats statHash of
                            None \<Rightarrow> b
                          | Some v \<Rightarrow> if v \<noteq> 0 then b(statHash := b statHash + v) else b))
                   orderedStatValues bs
               else bs))"

definition getStatValuesWithMWProcess :: "ProcessItem \<Rightarrow> bool \<Rightarrow> int list \<Rightarrow> int list" where
  "getStatValuesWithMWProcess item assumeMasterwork orderedStatValues =
     (let baseStats0 = baseStats item;
          baseStats1 =
            (case ProcessItem.sockets item of
               None \<Rightarrow> baseStats0
             | Some itemSockets \<Rightarrow>
                 if truthyEnergy (energy item) then
                   if assumeMasterwork \<or> truthyEnergy (energy item) then
                     addFlatMasterwork orderedStatValues baseStats0
                   else
                     (let mwHashes = masterworkSocketHashes itemSockets in
                      if mwHashes \<noteq> [] then
                        fold (addPlugStats orderedStatValues mwHashes)
                          (ProcessSockets.sockets itemSockets) baseStats0
                      else baseStats0)
                 else baseStats0)
      in map (\<lambda>statHash. max (baseStats1 statHash) 0) orderedStatValues)"

subsection \<open>The set tracker\<close>

definition newStatMixGroup :: "string \<Rightarrow> IntermediateProcessArmorSet \<Rightarrow> StatMixGroup" where
  "newStatMixGroup sm armorSet = \<lparr>statMix = sm, armorSets = [armorSet]\<rparr>"

definition newTierGroup :: "int \<Rightarrow> string \<Rightarrow> IntermediateProcessArmorSet \<Rightarrow> TierGroup" where
  "newTierGroup t sm armorSet = \<lparr>tier = t, statMixes = [newStatMixGroup sm armorSet]\<rparr>"

text \<open>
  The innermost loop of \<open>insertIntoSetTracker\<close>. Its body returns in the first
  iteration, so the new set is compared with the first member only: it is
  spliced in at index 0 when its power is greater, and pushed at the end
  otherwise. On an empty group the loop body never runs (\<open>None\<close>).
\<close>

definition insertArmorSet ::
  "(ProcessItem list \<Rightarrow> int) \<Rightarrow> IntermediateProcessArmorSet \<Rightarrow> IntermediateProcessArmorSet list
     \<Rightarrow> IntermediateProcessArmorSet list option" where
  "insertArmorSet getPower armorSet sets =
     (case sets of
        [] \<Rightarrow> None
      | first # others \<Rightarrow>
          if getPower (armor armorSet) > getPower (armor first)
          then Some (armorSet # sets)
          else Some (sets @ [armorSet]))"

text \<open>The loop over the stat mixes of one tier; \<open>None\<close> when it ends without
  returning.\<close>

fun insertStatMix ::
  "(ProcessItem list \<Rightarrow> int) \<Rightarrow> string \<Rightarrow> IntermediateProcessArmorSet \<Rightarrow> StatMixGroup list
     \<Rightarrow> StatMixGroup list option" where
  "insertStatMix getPower sm armorSet [] = None"
| "insertStatMix getPower sm armorSet (currentStatMix # rest) =
     (if sm > statMix currentStatMix
      then Some (newStatMixGroup sm armorSet # currentStatMix # rest)
      else
        (case (if statMix currentStatMix = sm
               then insertArmorSet getPower armorSet (armorSets currentStatMix)
               else None) of
           Some sets \<Rightarrow> Some (currentStatMix\<lparr>armorSets := sets\<rparr> # rest)
         | None \<Rightarrow>
             if rest = []
             then Some (currentStatMix # [newStatMixGroup sm armorSet])
             else map_option ((#) currentStatMix) (insertStatMix getPower sm armorSet rest)))"

text \<open>The loop over the tiers; \<open>None\<close> when it ends without returning.\<close>

fun insertTier ::
  "(ProcessItem list \<Rightarrow> int) \<Rightarrow> int \<Rightarrow> string \<Rightarrow> IntermediateProcessArmorSet \<Rightarrow> SetTracker
     \<Rightarrow> SetTracker option" where
  "insertTier getPower t sm armorSet [] = None"
| "insertTier getPower t sm armorSet (currentTier # rest) =
     (if t > tier currentTier
      then Some (newTierGroup t sm armorSet # currentTier # rest)
      else
        (case (if t = tier currentTier
               then insertStatMix getPower sm armorSet (statMixes currentTier)
               else None) of
           Some mixes \<Rightarrow> Some (currentTier\<lparr>statMixes := mixes\<rparr> # rest)
         | None \<Rightarrow>
             if rest = []
             then Some (currentTier # [newTierGroup t sm armorSet])
             else map_option ((#) currentTier) (insertTier getPower t sm armorSet rest)))"

definition insertIntoSetTracker ::
  "(ProcessItem list \<Rightarrow> int) \<Rightarrow> int \<Rightarrow> string \<Rightarrow> IntermediateProcessArmorSet \<Rightarrow> SetTracker
     \<Rightarrow> SetTracker" where
  "insertIntoSetTracker getPower t sm armorSet setTracker =
     (if setTracker = [] then [newTierGroup t sm armorSet]
      else (case insertTier getPower t sm armorSet setTracker of
              Some tracker \<Rightarrow> tracker
            | None \<Rightarrow> setTracker))"

text \<open>
  After the insertion, when the count is over the cap: the last set of the last
  stat mix of the last tier is popped, emptied groups are popped with it, and
  the lowest tier is read off the new last tier. Reading a property of
  \<open>undefined\<close> (the last element of an empty array) throws.
\<close>

definition dropWorst :: "SetTracker \<Rightarrow> int \<Rightarrow> error + (SetTracker \<times> int)" where
  "dropWorst setTracker lowest =
     (if setTracker = [] then Inl TypeError
      else
        (let lowestTierSet = last setTracker in
         if statMixes lowestTierSet = [] then Inl TypeError
         else
           (let worstMix = last (statMixes lowestTierSet);
                popped = butlast (armorSets worstMix)
            in if popped = [] then
                 (let mixes = butlast (statMixes lowestTierSet) in
                  if mixes = [] then
                    (let tracker = butlast setTracker in
                     if tracker = [] then Inl TypeError
                     else Inr (tracker, tier (last tracker)))
                  else Inr (butlast setTracker @ [lowestTierSet\<lparr>statMixes := mixes\<rparr>], lowest))
               else
                 Inr (butlast setTracker @
                        [lowestTierSet\<lparr>statMixes :=
                           butlast (statMixes lowestTierSet) @ [worstMix\<lparr>armorSets := popped\<rparr>]\<rparr>],
                      lowest))))"

text \<open>\<open>setTracker.map((set) => set.statMixes.map((mix) => mix.armorSets)).flat(2)\<close>\<close>

definition flatTracker :: "SetTracker \<Rightarrow> IntermediateProcessArmorSet list" where
  "flatTracker setTracker = concat (map (\<lambda>s. concat (map armorSets (statMixes s))) setTracker)"

definition flattenSets :: "IntermediateProcessArmorSet list \<Rightarrow> ProcessArmorSet list" where
  "flattenSets sets = map (\<lambda>s. \<lparr>armor = map itemId (armor s), stats = stats s\<rparr>) sets"

subsection \<open>What the module imports\<close>

text \<open>
  The constants and functions that the processing module imports from files
  that are not among the sources at hand are parameters of the model: the stat
  hash of each stat type and the hash of the total, \<open>statTier\<close> and \<open>getPower\<close>
  (loadout-builder/utils), the plug category hashes that sort the locked mods,
  and the two functions of processUtils, over any type \<open>'m\<close> of mods and any
  type \<open>'p\<close> of mod permutations.
\<close>

record ('m, 'p) Imports =
  statHashes :: "StatTypes \<Rightarrow> int"
  TOTAL_STAT_HASH :: int
  statTier :: "int \<Rightarrow> int"
  getPower :: "ProcessItem list \<Rightarrow> int"
  general :: int
  raidPlugCategoryHashes :: "int list"
  knownModPlugCategoryHashes :: "int list"
  generateModPermutations :: "'m list \<Rightarrow> 'p"
  canTakeSlotIndependantMods :: "'p \<Rightarrow> 'p \<Rightarrow> 'p \<Rightarrow> ProcessItem list \<Rightarrow> bool"

subsection \<open>Sorting the candidate lists\<close>

text \<open>
  Modelled from the spec: \<open>compareBy\<close> and \<open>chainComparator\<close> are declared in
  utils/comparators, which is not among the sources at hand; the spec says only
  that the lists are sorted by a priority-weighted stat comparator. \<open>compareBy\<close>
  compares two values by a key (\<open>-1\<close>, \<open>0\<close> or \<open>1\<close>) and \<open>chainComparator\<close>
  returns the first result that is not \<open>0\<close>.
\<close>

definition compareBy :: "('a \<Rightarrow> int) \<Rightarrow> 'a \<Rightarrow> 'a \<Rightarrow> int" where
  "compareBy fn a b = (if fn a < fn b then - 1 else if fn a > fn b then 1 else 0)"

fun chainComparator :: "('a \<Rightarrow> 'a \<Rightarrow> int) list \<Rightarrow> 'a \<Rightarrow> 'a \<Rightarrow> int" where
  "chainComparator [] a b = 0"
| "chainComparator (c # cs) a b =
     (let r = c a b in if r \<noteq> 0 then r else chainComparator cs a b)"

definition compareByStatOrder :: "int \<Rightarrow> int list \<Rightarrow> ProcessItem \<Rightarrow> ProcessItem \<Rightarrow> int" where
  "compareByStatOrder totalHash orderedConsideredStatHashes =
     chainComparator
       ([compareBy (\<lambda>i. sum_list (map (\<lambda>h. - baseStats i h) orderedConsideredStatHashes))]
        @ map (\<lambda>h. compareBy (\<lambda>i. - baseStats i h)) orderedConsideredStatHashes
        @ [compareBy (\<lambda>i. - baseStats i totalHash)])"

text \<open>
  \<open>Array.prototype.sort\<close> is stable: with a comparator it puts the elements in
  the comparator's order and keeps the input order among elements that compare
  equal. Insertion from the right computes that arrangement.
\<close>

fun insortBy :: "('a \<Rightarrow> 'a \<Rightarrow> int) \<Rightarrow> 'a \<Rightarrow> 'a list \<Rightarrow> 'a list" where
  "insortBy cmp x [] = [x]"
| "insortBy cmp x (y # ys) = (if cmp x y \<le> 0 then x # y # ys else y # insortBy cmp x ys)"

definition arraySort :: "('a \<Rightarrow> 'a \<Rightarrow> int) \<Rightarrow> 'a list \<Rightarrow> 'a list" where
  "arraySort cmp xs = foldr (insortBy cmp) xs []"

subsection \<open>Trimming the candidate lists\<close>

datatype LockableBuckets = Helmet | Gauntlets | Chest | Leg | ClassItem

type_synonym ProcessItemsByBucket = "LockableBuckets \<rightharpoonup> ProcessItem list"

text \<open>The five local arrays of \<open>process\<close>.\<close>

record Candidates =
  helms :: "ProcessItem list"
  gaunts :: "ProcessItem list"
  chests :: "ProcessItem list"
  legs :: "ProcessItem list"
  classItems :: "ProcessItem list"

definition combosLimit :: nat where
  "combosLimit = 2000000"

definition comboCount :: "Candidates \<Rightarrow> nat" where
  "comboCount c =
     length (helms c) * length (gaunts c) * length (chests c) * length (legs c)
       * length (classItems c)"

text \<open>
  \<open>_.minBy\<close> of lodash: the first element whose key is the least (a later
  element replaces the current one only when its key is strictly smaller).
\<close>

fun minByFrom :: "('a \<Rightarrow> int) \<Rightarrow> 'a \<Rightarrow> 'a list \<Rightarrow> 'a" where
  "minByFrom iteratee best [] = best"
| "minByFrom iteratee best (x # xs) =
     minByFrom iteratee (if iteratee x < iteratee best then x else best) xs"

definition minBy :: "('a \<Rightarrow> int) \<Rightarrow> 'a list \<Rightarrow> 'a option" where
  "minBy iteratee xs = (case xs of [] \<Rightarrow> None | x # rest \<Rightarrow> Some (minByFrom iteratee x rest))"

text \<open>The four arrays that the trimming chooses from are referred to by their
  bucket.\<close>

fun candidateList :: "Candidates \<Rightarrow> LockableBuckets \<Rightarrow> ProcessItem list" where
  "candidateList c Helmet = helms c"
| "candidateList c Gauntlets = gaunts c"
| "candidateList c Chest = chests c"
| "candidateList c Leg = legs c"
| "candidateList c ClassItem = classItems c"

fun popList :: "LockableBuckets \<Rightarrow> Candidates \<Rightarrow> Candidates" where
  "popList Helmet c = c\<lparr>helms := butlast (helms c)\<rparr>"
| "popList Gauntlets c = c\<lparr>gaunts := butlast (gaunts c)\<rparr>"
| "popList Chest c = c\<lparr>chests := butlast (chests c)\<rparr>"
| "popList Leg c = c\<lparr>legs := butlast (legs c)\<rparr>"
| "popList ClassItem c = c\<lparr>classItems := butlast (classItems c)\<rparr>"

text \<open>
  One round of the trimming loop. The key of a list is the total stat of its
  last item; reading it off an empty list throws.
\<close>

definition trimStep :: "int \<Rightarrow> Candidates \<Rightarrow> error + Candidates" where
  "trimStep totalHash c =
     (if helms c = [] \<or> gaunts c = [] \<or> chests c = [] \<or> legs c = []
      then Inl TypeError
      else
        (case minBy (\<lambda>l. baseStats (last (candidateList c l)) totalHash)
                [Helmet, Gauntlets, Chest, Leg] of
           None \<Rightarrow> Inl TypeError
         | Some lowestTotalStat \<Rightarrow> Inr (popList lowestTotalStat c)))"

lemma minByFrom_in: "minByFrom f b xs \<in> insert b (set xs)"
  by (induction xs arbitrary: b) auto

lemma minBy_four:
  "minBy f [Helmet, Gauntlets, Chest, Leg] = Some l \<Longrightarrow> l \<in> {Helmet, Gauntlets, Chest, Leg}"
  using minByFrom_in [of f Helmet "[Gauntlets, Chest, Leg]"] by (auto simp: minBy_def)

lemma trimStep_decreases:
  assumes "trimStep h c = Inr c'" and "0 < comboCount c"
  shows "comboCount c' < comboCount c"
proof -
  from assms(1) obtain l where l: "minBy (\<lambda>l. baseStats (last (candidateList c l)) h)
        [Helmet, Gauntlets, Chest, Leg] = Some l" and c': "c' = popList l c"
    by (auto simp: trimStep_def split: if_splits option.splits)
  from assms(2) have pos: "0 < length (helms c)" "0 < length (gaunts c)"
    "0 < length (chests c)" "0 < length (legs c)" "0 < length (classItems c)"
    by (simp_all add: comboCount_def)
  from minBy_four [OF l] show ?thesis
  proof (elim insertE emptyE)
    assume "l = Helmet"
    with pos show ?thesis by (simp add: c' comboCount_def)
  next
    assume "l = Gauntlets"
    with pos show ?thesis by (simp add: c' comboCount_def)
  next
    assume "l = Chest"
    with pos show ?thesis by (simp add: c' comboCount_def)
  next
    assume "l = Leg"
    with pos show ?thesis by (simp add: c' comboCount_def)
  qed
qed

text \<open>The loop \<open>while (combos > combosLimit)\<close>.\<close>

function trimLoop :: "int \<Rightarrow> Candidates \<Rightarrow> error + Candidates" where
  "trimLoop totalHash c =
     (if comboCount c > combosLimit then
        (case trimStep totalHash c of
           Inl e \<Rightarrow> Inl e
         | Inr c' \<Rightarrow> trimLoop totalHash c')
      else Inr c)"
  by pat_completeness auto
termination
proof (relation "measure (\<lambda>(h, c). comboCount c)")
  show "wf (measure (\<lambda>(h, c). comboCount c))" by simp
next
  fix totalHash c c'
  assume "combosLimit < comboCount c" and "trimStep totalHash c = Inr c'"
  then show "((totalHash, c'), (totalHash, c)) \<in> measure (\<lambda>(h, c). comboCount c)"
    using trimStep_decreases [of totalHash c c'] by simp
qed

declare trimLoop.simps [simp del]

subsection \<open>Evaluating one combination\<close>

text \<open>The decimal digits that \<open>tiers += tier\<close> appends for an integer tier.\<close>

function showNat :: "nat \<Rightarrow> string" where
  "showNat n =
     (if n < 10 then [''0123456789'' ! n]
      else showNat (n div 10) @ [''0123456789'' ! (n mod 10)])"
  by pat_completeness auto
termination
  by (relation "measure id") auto

declare showNat.simps [simp del]

definition showInt :: "int \<Rightarrow> string" where
  "showInt i = (if i < 0 then ''-'' @ showNat (nat (- i)) else showNat (nat i))"

text \<open>
  \<open>stats[statType] = stats[statType] + itemStats[index]\<close> along \<open>statOrder\<close>;
  \<open>itemStats\<close> has one entry for each entry of \<open>statOrder\<close>
  (\<open>length_getStatValuesWithMWProcess\<close>), so the index is always in range.
\<close>

definition addItemStats :: "StatTypes list \<Rightarrow> int list \<Rightarrow> (StatTypes \<Rightarrow> int) \<Rightarrow> (StatTypes \<Rightarrow> int)" where
  "addItemStats statOrder itemStats st =
     fold (\<lambda>(statType, v) s. s(statType := s statType + v)) (zip statOrder itemStats) st"

text \<open>The update of the global min and max of one stat.\<close>

definition observeTier :: "int \<Rightarrow> MinMax \<Rightarrow> MinMax" where
  "observeTier t r =
     (let r1 = (if t > max_tier r then r\<lparr>max_tier := t\<rparr> else r)
      in if t < min_tier r1 then r1\<lparr>min_tier := t\<rparr> else r1)"

text \<open>The variables of the loop over the considered stats.\<close>

record TierAcc =
  accStats :: "StatTypes \<Rightarrow> int"
  tiers :: string
  totalTier :: int
  index :: nat
  accRanges :: "StatTypes \<Rightarrow> MinMax"

text \<open>
  The loop over \<open>orderedConsideredStats\<close>; the flag is \<open>statRangeExceeded\<close>, and
  \<open>n\<close> is \<open>statOrder.length\<close>.
\<close>

fun tierLoop ::
  "(int \<Rightarrow> int) \<Rightarrow> (StatTypes \<Rightarrow> MinMaxIgnored) \<Rightarrow> nat \<Rightarrow> StatTypes list \<Rightarrow> TierAcc
     \<Rightarrow> bool \<times> TierAcc" where
  "tierLoop tierOf statFilters n [] acc = (False, acc)"
| "tierLoop tierOf statFilters n (statKey # rest) acc =
     (let stats1 = (if accStats acc statKey > 100 then (accStats acc)(statKey := 100)
                    else accStats acc);
          t = tierOf (stats1 statKey);
          ranges1 = (accRanges acc)(statKey := observeTier t (accRanges acc statKey));
          acc1 = acc\<lparr>accStats := stats1, accRanges := ranges1\<rparr>
      in if t > max_tier (statFilters statKey) \<or> t < min_tier (statFilters statKey)
         then (True, acc1)
         else tierLoop tierOf statFilters n rest
                (acc1\<lparr>tiers := tiers acc1 @ showInt t
                                @ (if int (index acc1) < int n - 1 then '','' else []),
                      totalTier := totalTier acc1 + t,
                      index := index acc1 + 1\<rparr>))"

definition RETURNED_ARMOR_SETS :: nat where
  "RETURNED_ARMOR_SETS = 200"

text \<open>
  The variables that the enumeration updates. \<open>modChecks\<close> is a log that the
  model adds: the identifiers of each armor that was handed to
  \<open>canTakeSlotIndependantMods\<close>, in the order of the calls.
\<close>

record LoopState =
  setTracker :: SetTracker
  lowestTier :: int
  setCount :: nat
  statRanges :: "StatTypes \<Rightarrow> MinMax"
  modChecks :: "string list list"

text \<open>
  The stats of a combination before the tiers are read off: the contribution
  of the mods, and on top of it the resolved stats of each item, taken from
  \<open>statsCache\<close>. The cache holds \<open>getStatValuesWithMWProcess\<close> of every item, so
  it is the function itself.
\<close>

definition combinedStats ::
  "(StatTypes \<Rightarrow> int) \<Rightarrow> StatTypes list \<Rightarrow> (ProcessItem \<Rightarrow> int list) \<Rightarrow> ProcessItem list
     \<Rightarrow> (StatTypes \<Rightarrow> int)" where
  "combinedStats modStatTotals statOrder statsCache armor0 =
     fold (\<lambda>item. addItemStats statOrder (statsCache item)) armor0 modStatTotals"

text \<open>The variables of the tier loop as it starts.\<close>

definition startTiers :: "(StatTypes \<Rightarrow> int) \<Rightarrow> (StatTypes \<Rightarrow> MinMax) \<Rightarrow> TierAcc" where
  "startTiers stats0 ranges =
     \<lparr>accStats = stats0, tiers = [], totalTier = 0, index = 0, accRanges = ranges\<rparr>"

text \<open>
  The body of the innermost loop. \<open>canTake\<close> is the mod predicate applied to the
  three lists of permutations.
\<close>

definition evaluateCombination ::
  "(int \<Rightarrow> int) \<Rightarrow> (ProcessItem list \<Rightarrow> int) \<Rightarrow> (StatTypes \<Rightarrow> int) \<Rightarrow> (ProcessItem \<Rightarrow> int list)
     \<Rightarrow> bool \<Rightarrow> (ProcessItem list \<Rightarrow> bool) \<Rightarrow> StatTypes list \<Rightarrow> StatTypes list
     \<Rightarrow> (StatTypes \<Rightarrow> MinMaxIgnored) \<Rightarrow> ProcessItem list \<Rightarrow> LoopState \<Rightarrow> error + LoopState" where
  "evaluateCombination tierOf powerOf modStatTotals statsCache hasMods canTake statOrder
       orderedConsideredStats statFilters armor0 st =
     (let stats0 = combinedStats modStatTotals statOrder statsCache armor0;
          (statRangeExceeded, acc) =
            tierLoop tierOf statFilters (length statOrder) orderedConsideredStats
              (startTiers stats0 (statRanges st));
          st1 = st\<lparr>statRanges := accRanges acc\<rparr>
      in if statRangeExceeded then Inr st1
         else if totalTier acc < lowestTier st1 \<and> \<not> setCount st1 \<le> RETURNED_ARMOR_SETS
         then Inr st1
         else
           (let st2 = (if totalTier acc < lowestTier st1
                       then st1\<lparr>lowestTier := totalTier acc\<rparr> else st1);
                st3 = (if hasMods then st2\<lparr>modChecks := modChecks st2 @ [map itemId armor0]\<rparr>
                       else st2)
            in if hasMods \<and> \<not> canTake armor0 then Inr st3
               else
                 (let newArmorSet = \<lparr>armor = armor0, stats = accStats acc\<rparr>;
                      st4 = st3\<lparr>setTracker :=
                                  insertIntoSetTracker powerOf (totalTier acc) (tiers acc)
                                    newArmorSet (setTracker st3),
                                setCount := setCount st3 + 1\<rparr>
                  in if setCount st4 > RETURNED_ARMOR_SETS then
                       (case dropWorst (setTracker st4) (lowestTier st4) of
                          Inl e \<Rightarrow> Inl e
                        | Inr (tracker, lowest) \<Rightarrow>
                            Inr (st4\<lparr>setTracker := tracker, lowestTier := lowest,
                                     setCount := setCount st4 - 1\<rparr>))
                     else Inr st4)))"

subsection \<open>The enumeration\<close>

text \<open>A \<open>for ... of\<close> loop whose body may throw.\<close>

fun forEach :: "'a list \<Rightarrow> ('a \<Rightarrow> 's \<Rightarrow> error + 's) \<Rightarrow> 's \<Rightarrow> error + 's" where
  "forEach [] body s = Inr s"
| "forEach (x # xs) body s =
     (case body x s of Inl e \<Rightarrow> Inl e | Inr s' \<Rightarrow> forEach xs body s')"

text \<open>The five nested loops with their \<open>continue\<close>s; \<open>evaluate\<close> is the body of
  the innermost one.\<close>

definition searchCombinations ::
  "Candidates \<Rightarrow> (ProcessItem list \<Rightarrow> LoopState \<Rightarrow> error + LoopState) \<Rightarrow> LoopState
     \<Rightarrow> error + LoopState" where
  "searchCombinations c evaluate =
     forEach (helms c) (\<lambda>helm.
       forEach (gaunts c) (\<lambda>gaunt st.
         if hasLabel helm \<and> hasLabel gaunt then Inr st
         else
           forEach (chests c) (\<lambda>chest st.
             if hasLabel chest \<and> (hasLabel helm \<or> hasLabel gaunt) then Inr st
             else
               forEach (legs c) (\<lambda>leg st.
                 if hasLabel leg \<and> (hasLabel chest \<or> hasLabel helm \<or> hasLabel gaunt)
                 then Inr st
                 else
                   forEach (classItems c)
                     (\<lambda>classItem. evaluate [helm, gaunt, chest, leg, classItem]) st) st) st))"

subsection \<open>process\<close>

text \<open>The locked mods by kind: general, other and raid mods, from the entries of
  \<open>lockedModMap\<close> in their order.\<close>

definition sortMods ::
  "('m, 'p) Imports \<Rightarrow> (int \<times> 'm list) list \<Rightarrow> 'm list \<times> 'm list \<times> 'm list" where
  "sortMods ext lockedModMap =
     fold (\<lambda>(pch, mods) (generalMods, otherMods, raidMods).
             if pch = general ext then (generalMods @ mods, otherMods, raidMods)
             else if pch \<in> set (raidPlugCategoryHashes ext)
             then (generalMods, otherMods, raidMods @ mods)
             else if pch \<notin> set (knownModPlugCategoryHashes ext)
             then (generalMods, otherMods @ mods, raidMods)
             else (generalMods, otherMods, raidMods))
       lockedModMap ([], [], [])"

text \<open>The object that \<open>process\<close> returns; \<open>statRanges\<close> is left out of the early
  return.\<close>

record ProcessResult =
  sets :: "ProcessArmorSet list"
  combos :: nat
  combosWithoutCaps :: nat
  resultStatRanges :: "(StatTypes \<Rightarrow> MinMax) option"

text \<open>
  What a call of \<open>process\<close> leaves behind: the object it returns, the sets of
  the tracker before their items are replaced by identifiers, the caller's
  \<open>filteredItems\<close> as they are after the call (the arrays are sorted and popped
  in place), and the log of the calls of the mod predicate.
\<close>

record ProcessOutcome =
  returned :: ProcessResult
  finalSets :: "IntermediateProcessArmorSet list"
  filteredItemsAfter :: ProcessItemsByBucket
  modChecksDone :: "string list list"

text \<open>\<open>orderedConsideredStats\<close>: the stat types excluding ignored stats.\<close>

definition consideredStats :: "StatTypes list \<Rightarrow> (StatTypes \<Rightarrow> MinMaxIgnored) \<Rightarrow> StatTypes list" where
  "consideredStats statOrder statFilters =
     filter (\<lambda>statType. \<not> ignored (statFilters statType)) statOrder"

text \<open>\<open>filteredItems[bucket] || []\<close>: a bucket that \<open>filteredItems\<close> lacks gives the
  empty list.\<close>

definition bucketItems :: "ProcessItemsByBucket \<Rightarrow> LockableBuckets \<Rightarrow> ProcessItem list" where
  "bucketItems filteredItems bucket =
     (case filteredItems bucket of None \<Rightarrow> [] | Some l \<Rightarrow> l)"

text \<open>The five arrays, sorted.\<close>

definition sortCandidates ::
  "('m, 'p) Imports \<Rightarrow> ProcessItemsByBucket \<Rightarrow> StatTypes list \<Rightarrow> (StatTypes \<Rightarrow> MinMaxIgnored)
     \<Rightarrow> Candidates" where
  "sortCandidates ext filteredItems statOrder statFilters =
     (let orderedConsideredStatHashes = map (statHashes ext) (consideredStats statOrder statFilters);
          itemComparator = compareByStatOrder (TOTAL_STAT_HASH ext) orderedConsideredStatHashes;
          sorted = (\<lambda>bucket. arraySort itemComparator (bucketItems filteredItems bucket))
      in \<lparr>helms = sorted Helmet, gaunts = sorted Gauntlets, chests = sorted Chest,
          legs = sorted Leg, classItems = sorted ClassItem\<rparr>)"

text \<open>The variables of the enumeration as it starts.\<close>

definition initialState :: "(StatTypes \<Rightarrow> MinMaxIgnored) \<Rightarrow> LoopState" where
  "initialState statFilters =
     \<lparr>setTracker = [], lowestTier = 100, setCount = 0,
      statRanges = (\<lambda>stat. if ignored (statFilters stat)
                            then \<lparr>min_tier = 0, max_tier = 10\<rparr>
                            else \<lparr>min_tier = 10, max_tier = 0\<rparr>),
      modChecks = []\<rparr>"

text \<open>The body of the innermost loop with what \<open>process\<close> computes before the
  loops: the cache of resolved stats, the permutations of the mods and
  \<open>hasMods\<close>.\<close>

definition evaluator ::
  "('m, 'p) Imports \<Rightarrow> (StatTypes \<Rightarrow> int) \<Rightarrow> (int \<times> 'm list) list \<Rightarrow> bool \<Rightarrow> StatTypes list
     \<Rightarrow> (StatTypes \<Rightarrow> MinMaxIgnored) \<Rightarrow> ProcessItem list \<Rightarrow> LoopState \<Rightarrow> error + LoopState" where
  "evaluator ext modStatTotals lockedModMap assumeMasterwork statOrder statFilters =
     (let orderedStatHashes = map (statHashes ext) statOrder;
          statsCache = (\<lambda>item. getStatValuesWithMWProcess item assumeMasterwork orderedStatHashes);
          (generalMods, otherMods, raidMods) = sortMods ext lockedModMap;
          generalModsPermutations = generateModPermutations ext generalMods;
          otherModPermutations = generateModPermutations ext otherMods;
          raidModPermutations = generateModPermutations ext raidMods;
          hasMods = (\<not> (otherMods = [] \<and> raidMods = [] \<and> generalMods = []))
      in evaluateCombination (statTier ext) (getPower ext) modStatTotals statsCache hasMods
           (canTakeSlotIndependantMods ext generalModsPermutations otherModPermutations
              raidModPermutations)
           statOrder (consideredStats statOrder statFilters) statFilters)"

text \<open>
  What the loop over the considered stats observes for one combination, read
  off \<open>tierLoop\<close>: each stat it reaches with the tier of the clamped value, up to
  and including the first stat whose tier fails the filter. \<open>observeStat\<close> is
  the update of the ranges for one observation, and \<open>observedBy\<close> the
  observations for one armor of a run of \<open>process\<close>.
\<close>

fun observedTiers ::
  "(int \<Rightarrow> int) \<Rightarrow> (StatTypes \<Rightarrow> MinMaxIgnored) \<Rightarrow> StatTypes list \<Rightarrow> (StatTypes \<Rightarrow> int)
     \<Rightarrow> (StatTypes \<times> int) list" where
  "observedTiers tierOf statFilters [] stats0 = []"
| "observedTiers tierOf statFilters (statKey # rest) stats0 =
     (let stats1 = (if stats0 statKey > 100 then stats0(statKey := 100) else stats0);
          t = tierOf (stats1 statKey)
      in (statKey, t) #
           (if t > max_tier (statFilters statKey) \<or> t < min_tier (statFilters statKey)
            then []
            else observedTiers tierOf statFilters rest stats1))"

definition observeStat :: "StatTypes \<times> int \<Rightarrow> (StatTypes \<Rightarrow> MinMax) \<Rightarrow> (StatTypes \<Rightarrow> MinMax)" where
  "observeStat = (\<lambda>(statKey, t) ranges. ranges(statKey := observeTier t (ranges statKey)))"

definition observedBy ::
  "('m, 'p) Imports \<Rightarrow> (StatTypes \<Rightarrow> int) \<Rightarrow> bool \<Rightarrow> StatTypes list \<Rightarrow> (StatTypes \<Rightarrow> MinMaxIgnored)
     \<Rightarrow> ProcessItem list \<Rightarrow> (StatTypes \<times> int) list" where
  "observedBy ext modStatTotals assumeMasterwork statOrder statFilters armor0 =
     observedTiers (statTier ext) statFilters (consideredStats statOrder statFilters)
       (combinedStats modStatTotals statOrder
          (\<lambda>item. getStatValuesWithMWProcess item assumeMasterwork
                     (map (statHashes ext) statOrder))
          armor0)"

definition process ::
  "('m, 'p) Imports \<Rightarrow> ProcessItemsByBucket \<Rightarrow> (StatTypes \<Rightarrow> int) \<Rightarrow> (int \<times> 'm list) list
     \<Rightarrow> bool \<Rightarrow> StatTypes list \<Rightarrow> (StatTypes \<Rightarrow> MinMaxIgnored) \<Rightarrow> error + ProcessOutcome" where
  "process ext filteredItems modStatTotals lockedModMap assumeMasterwork statOrder statFilters =
     (let c0 = sortCandidates ext filteredItems statOrder statFilters;
          combosWithoutCaps0 = comboCount c0
      in case trimLoop (TOTAL_STAT_HASH ext) c0 of
           Inl e \<Rightarrow> Inl e
         | Inr c \<Rightarrow>
             (let combos0 = comboCount c;
                  after = (\<lambda>bucket. map_option (\<lambda>l. candidateList c bucket) (filteredItems bucket))
              in if combos0 = 0 then
                   Inr \<lparr>returned = \<lparr>sets = [], combos = 0, combosWithoutCaps = 0,
                                    resultStatRanges = None\<rparr>,
                        finalSets = [], filteredItemsAfter = after, modChecksDone = []\<rparr>
                 else
                   (case searchCombinations c
                           (evaluator ext modStatTotals lockedModMap assumeMasterwork statOrder
                              statFilters)
                           (initialState statFilters) of
                      Inl e \<Rightarrow> Inl e
                    | Inr st \<Rightarrow>
                        Inr \<lparr>returned = \<lparr>sets = flattenSets (flatTracker (setTracker st)),
                                         combos = combos0,
                                         combosWithoutCaps = combosWithoutCaps0,
                                         resultStatRanges = Some (statRanges st)\<rparr>,
                             finalSets = flatTracker (setTracker st),
                             filteredItemsAfter = after,
                             modChecksDone = modChecks st\<rparr>)))"

section \<open>Notions used in the statements\<close>

text \<open>The sets of the stat mixes of one tier, in order.\<close>

definition flatMixes :: "StatMixGroup list \<Rightarrow> IntermediateProcessArmorSet list" where
  "flatMixes ms = concat (map armorSets ms)"

text \<open>
  A well-formed tracker has no empty group: every tier holds a stat mix and
  every stat mix holds a set. \<open>trackerInv\<close> is what holds of the variables of the
  enumeration before each combination: the tracker is well formed, \<open>setCount\<close>
  is the number of its sets, and that number is at most the cap.
\<close>

definition wfMixes :: "StatMixGroup list \<Rightarrow> bool" where
  "wfMixes ms = list_all (\<lambda>m. armorSets m \<noteq> []) ms"

definition wfTracker :: "SetTracker \<Rightarrow> bool" where
  "wfTracker tr = list_all (\<lambda>g. statMixes g \<noteq> [] \<and> wfMixes (statMixes g)) tr"

definition trackerInv :: "LoopState \<Rightarrow> bool" where
  "trackerInv st =
     (wfTracker (setTracker st) \<and> setCount st = length (flatTracker (setTracker st))
      \<and> setCount st \<le> RETURNED_ARMOR_SETS)"

text \<open>
  The combinations that the five nested loops reach, in the order in which they
  reach them (\<open>searchCombinations_flat\<close> below).
\<close>

definition combinations :: "Candidates \<Rightarrow> ProcessItem list list" where
  "combinations c =
     concat (map (\<lambda>helm.
       concat (map (\<lambda>gaunt.
         if hasLabel helm \<and> hasLabel gaunt then []
         else
           concat (map (\<lambda>chest.
             if hasLabel chest \<and> (hasLabel helm \<or> hasLabel gaunt) then []
             else
               concat (map (\<lambda>leg.
                 if hasLabel leg \<and> (hasLabel chest \<or> hasLabel helm \<or> hasLabel gaunt)
                 then []
                 else map (\<lambda>classItem. [helm, gaunt, chest, leg, classItem]) (classItems c))
               (legs c)))
           (chests c)))
       (gaunts c)))
     (helms c))"

text \<open>
  One removal of the trimming: all four lists of helmets, gauntlets, chests and
  legs hold an item, one of the four (\<open>l\<close>) loses its last item and nothing
  else, the other three and the class items are what they were, and the total
  stat of the last item of \<open>l\<close> is the lowest among the last items of the four
  lists.
\<close>

definition lastTotal :: "int \<Rightarrow> Candidates \<Rightarrow> LockableBuckets \<Rightarrow> int" where
  "lastTotal totalHash c l = baseStats (last (candidateList c l)) totalHash"

definition removesWeakestLast :: "int \<Rightarrow> Candidates \<Rightarrow> Candidates \<Rightarrow> bool" where
  "removesWeakestLast totalHash c c' =
     (\<exists>l. (l = Helmet \<or> l = Gauntlets \<or> l = Chest \<or> l = Leg)
          \<and> helms c \<noteq> [] \<and> gaunts c \<noteq> [] \<and> chests c \<noteq> [] \<and> legs c \<noteq> []
          \<and> helms c' = (if l = Helmet then butlast (helms c) else helms c)
          \<and> gaunts c' = (if l = Gauntlets then butlast (gaunts c) else gaunts c)
          \<and> chests c' = (if l = Chest then butlast (chests c) else chests c)
          \<and> legs c' = (if l = Leg then butlast (legs c) else legs c)
          \<and> classItems c' = classItems c
          \<and> lastTotal totalHash c l \<le> lastTotal totalHash c Helmet
          \<and> lastTotal totalHash c l \<le> lastTotal totalHash c Gauntlets
          \<and> lastTotal totalHash c l \<le> lastTotal totalHash c Chest
          \<and> lastTotal totalHash c l \<le> lastTotal totalHash c Leg)"

text \<open>
  One round of the trimming loop: the product of the five lengths exceeds
  2,000,000, and a removal takes place.
\<close>

definition trimRound :: "int \<Rightarrow> Candidates \<Rightarrow> Candidates \<Rightarrow> bool" where
  "trimRound totalHash c c' =
     (2000000 < comboCount c \<and> removesWeakestLast totalHash c c')"

text \<open>
  The order of the comparator as a key: the negated sum of the considered stats,
  then each considered stat negated, in priority order, then the negated total.
  The comparator puts \<open>a\<close> before \<open>b\<close> when the key of \<open>a\<close> is lexicographically
  smaller; items with equal keys compare equal (\<open>compareByStatOrder_key\<close>).
\<close>

definition statOrderKey :: "int \<Rightarrow> int list \<Rightarrow> ProcessItem \<Rightarrow> int list" where
  "statOrderKey totalHash orderedConsideredStatHashes item =
     sum_list (map (\<lambda>h. - baseStats item h) orderedConsideredStatHashes)
       # map (\<lambda>h. - baseStats item h) orderedConsideredStatHashes
       @ [- baseStats item totalHash]"

text \<open>The tiers of one stat among a list of observations, in order.\<close>

definition tiersSeen :: "(StatTypes \<times> int) list \<Rightarrow> StatTypes \<Rightarrow> int list" where
  "tiersSeen obs stat = map snd (filter (\<lambda>ob. fst ob = stat) obs)"

section \<open>Sample inputs\<close>

text \<open>
  A sample of what the module imports, for the concrete runs below: small
  numbers for the hashes, the tier of the spec's glossary (the stat value
  divided by 10, rounded down), the sum of the items' \<open>basePower\<close> as the power
  of an armor, one general plug category, and a mod predicate that accepts
  every armor.
\<close>

definition sampleImports :: "(unit, unit) Imports" where
  "sampleImports =
     \<lparr>statHashes = (\<lambda>s. case s of Mobility \<Rightarrow> 1 | Resilience \<Rightarrow> 2 | Recovery \<Rightarrow> 3
                        | Discipline \<Rightarrow> 4 | Intellect \<Rightarrow> 5 | Strength \<Rightarrow> 6),
      TOTAL_STAT_HASH = 0,
      statTier = (\<lambda>v. v div 10),
      getPower = (\<lambda>items. sum_list (map basePower items)),
      general = 100,
      raidPlugCategoryHashes = [],
      knownModPlugCategoryHashes = [],
      generateModPermutations = (\<lambda>mods. ()),
      canTakeSlotIndependantMods = (\<lambda>generalPerms otherPerms raidPerms items. True)\<rparr>"

text \<open>An item without sockets whose six stats all have the value \<open>v\<close> (the total
  is \<open>6 * v\<close>).\<close>

definition sampleItem :: "string \<Rightarrow> string option \<Rightarrow> int \<Rightarrow> int \<Rightarrow> ProcessItem" where
  "sampleItem name label pw v =
     \<lparr>itemId = name, equippingLabel = label, basePower = pw,
      baseStats = (\<lambda>h. if h = 0 then 6 * v else v),
      ProcessItem.sockets = None, energy = NoEnergy\<rparr>"

definition noFilter :: "StatTypes \<Rightarrow> MinMaxIgnored" where
  "noFilter = (\<lambda>s. \<lparr>min_tier = 0, max_tier = 10, ignored = False\<rparr>)"

definition allStats :: "StatTypes list" where
  "allStats = [Mobility, Resilience, Recovery, Discipline, Intellect, Strength]"

definition noMods :: "StatTypes \<Rightarrow> int" where
  "noMods = (\<lambda>s. 0)"

text \<open>Two helmets, two gauntlets and a leg, some of them exotic, and class items
  without a label.\<close>

definition exoticItems :: ProcessItemsByBucket where
  "exoticItems =
     [Helmet \<mapsto> [sampleItem ''h1'' (Some ''exotic'') 10 2, sampleItem ''h2'' None 10 2],
      Gauntlets \<mapsto> [sampleItem ''g1'' (Some ''exotic'') 10 2, sampleItem ''g2'' None 10 2],
      Chest \<mapsto> [sampleItem ''c1'' None 10 2],
      Leg \<mapsto> [sampleItem ''l1'' (Some ''exotic'') 10 2],
      ClassItem \<mapsto> [sampleItem ''k1'' (Some []) 10 2, sampleItem ''k2'' None 10 2]]"

text \<open>One helmet, 127 gauntlets, 126 chests, 125 legs and one class item, all with
  the same stats: 2,000,250 combinations.\<close>

definition crowded :: Candidates where
  "crowded =
     \<lparr>helms = [sampleItem ''h'' None 10 2],
      gaunts = map (\<lambda>i. sampleItem (''g'' @ showNat i) None 10 2) [0..<127],
      chests = map (\<lambda>i. sampleItem (''c'' @ showNat i) None 10 2) [0..<126],
      legs = map (\<lambda>i. sampleItem (''l'' @ showNat i) None 10 2) [0..<125],
      classItems = [sampleItem ''k'' None 10 2]\<rparr>"

text \<open>
  An item with sockets whose energy is an object of value 0: its energy-meter
  category holds the plug 7, and the socket with the plug 7 gives \<open>+1\<close> to the
  stat with hash 1.
\<close>

definition masterworkItem :: ProcessItem where
  "masterworkItem =
     \<lparr>itemId = ''mw'', equippingLabel = None, basePower = 10, baseStats = (\<lambda>h. 10),
      ProcessItem.sockets =
        Some \<lparr>ProcessSockets.sockets =
                 [\<lparr>plug = Some \<lparr>plugItemHash = 7, ProcessPlug.stats = Some [1 \<mapsto> 1]\<rparr>\<rparr>],
              categories =
                 [\<lparr>categoryStyle = EnergyMeter,
                   ProcessSocketCategory.sockets =
                     [\<lparr>plug = Some \<lparr>plugItemHash = 7, ProcessPlug.stats = None\<rparr>\<rparr>]\<rparr>]\<rparr>,
      energy = EnergyObject 0\<rparr>"

text \<open>The lists of \<open>crowded\<close> as the caller's \<open>filteredItems\<close>.\<close>

definition crowdedItems :: ProcessItemsByBucket where
  "crowdedItems =
     [Helmet \<mapsto> helms crowded, Gauntlets \<mapsto> gaunts crowded, Chest \<mapsto> chests crowded,
      Leg \<mapsto> legs crowded, ClassItem \<mapsto> classItems crowded]"

text \<open>
  One item in each bucket, all stats of every item with the value \<open>v\<close>; the
  lists as \<open>process\<close> has them after sorting, and the one combination. The
  filters \<open>ignoreMobility\<close> (every tier from 0 to 10, Mobility ignored) and
  \<open>capMobility\<close> (Mobility from tier 0 to tier 3, nothing ignored).
\<close>

definition oneOfEach :: "int \<Rightarrow> ProcessItemsByBucket" where
  "oneOfEach v =
     [Helmet \<mapsto> [sampleItem ''h'' None 10 v], Gauntlets \<mapsto> [sampleItem ''g'' None 10 v],
      Chest \<mapsto> [sampleItem ''c'' None 10 v], Leg \<mapsto> [sampleItem ''l'' None 10 v],
      ClassItem \<mapsto> [sampleItem ''k'' None 10 v]]"

definition oneOfEachSorted :: "int \<Rightarrow> Candidates" where
  "oneOfEachSorted v =
     \<lparr>helms = [sampleItem ''h'' None 10 v], gaunts = [sampleItem ''g'' None 10 v],
      chests = [sampleItem ''c'' None 10 v], legs = [sampleItem ''l'' None 10 v],
      classItems = [sampleItem ''k'' None 10 v]\<rparr>"

definition oneArmor :: "int \<Rightarrow> ProcessItem list" where
  "oneArmor v = [sampleItem ''h'' None 10 v, sampleItem ''g'' None 10 v, sampleItem ''c'' None 10 v,
     sampleItem ''l'' None 10 v, sampleItem ''k'' None 10 v]"

definition ignoreMobility :: "StatTypes \<Rightarrow> MinMaxIgnored" where
  "ignoreMobility = (\<lambda>s. \<lparr>min_tier = 0, max_tier = 10, ignored = (s = Mobility)\<rparr>)"

definition capMobility :: "StatTypes \<Rightarrow> MinMaxIgnored" where
  "capMobility = (\<lambda>s. \<lparr>min_tier = 0, max_tier = (if s = Mobility then 3 else 10), ignored = False\<rparr>)"

text \<open>
  Three helmets with the same stats and the powers 100, 50 and 75, and one item
  in each other bucket.
\<close>

definition threeHelmets :: ProcessItemsByBucket where
  "threeHelmets =
     [Helmet \<mapsto> [sampleItem ''h1'' None 100 2, sampleItem ''h2'' None 50 2,
                 sampleItem ''h3'' None 75 2],
      Gauntlets \<mapsto> [sampleItem ''g'' None 10 2], Chest \<mapsto> [sampleItem ''c'' None 10 2],
      Leg \<mapsto> [sampleItem ''l'' None 10 2], ClassItem \<mapsto> [sampleItem ''k'' None 10 2]]"

definition threeHelmetsSorted :: Candidates where
  "threeHelmetsSorted =
     \<lparr>helms = [sampleItem ''h1'' None 100 2, sampleItem ''h2'' None 50 2,
               sampleItem ''h3'' None 75 2],
      gaunts = [sampleItem ''g'' None 10 2], chests = [sampleItem ''c'' None 10 2],
      legs = [sampleItem ''l'' None 10 2], classItems = [sampleItem ''k'' None 10 2]\<rparr>"

text \<open>
  200 helmets with 2 in every stat and, last, a helmet with 0 in every stat; one
  item with 2 in every stat in each other bucket. \<open>withHelmet\<close> is the
  combination of a helmet with these four items. The first 200 combinations
  have 10 in every stat (Total Tier 6), the last one has 8 (Total Tier 0).
\<close>

definition goodHelm :: "nat \<Rightarrow> ProcessItem" where
  "goodHelm i = sampleItem (''h'' @ showNat i) None 10 2"

definition manyHelmetsSorted :: Candidates where
  "manyHelmetsSorted =
     \<lparr>helms = map goodHelm [0..<200] @ [sampleItem ''weak'' None 10 0],
      gaunts = [sampleItem ''g'' None 10 2], chests = [sampleItem ''c'' None 10 2],
      legs = [sampleItem ''l'' None 10 2], classItems = [sampleItem ''k'' None 10 2]\<rparr>"

definition manyHelmets :: ProcessItemsByBucket where
  "manyHelmets =
     [Helmet \<mapsto> helms manyHelmetsSorted, Gauntlets \<mapsto> gaunts manyHelmetsSorted,
      Chest \<mapsto> chests manyHelmetsSorted, Leg \<mapsto> legs manyHelmetsSorted,
      ClassItem \<mapsto> classItems manyHelmetsSorted]"

definition withHelmet :: "ProcessItem \<Rightarrow> ProcessItem list" where
  "withHelmet helm =
     [helm, sampleItem ''g'' None 10 2, sampleItem ''c'' None 10 2, sampleItem ''l'' None 10 2,
      sampleItem ''k'' None 10 2]"



text \<open>Two helmets, the weaker one first, and no other bucket.\<close>

definition unsortedHelmets :: ProcessItemsByBucket where
  "unsortedHelmets =
     [Helmet \<mapsto> [sampleItem ''weak'' None 10 0, sampleItem ''strong'' None 10 2]]"

text \<open>
  101 helmets, 101 gauntlets, 200 chests, one leg and one class item: 2,040,200
  combinations. All items have 5 in every stat except the last helmet (3), the
  last gauntlets (2) and the last chest (1). \<open>overfullTrimmed\<close> is \<open>overfull\<close>
  without these three items (1,990,000 combinations), and \<open>overfullItems\<close> holds
  the lists of \<open>overfull\<close> as the caller's \<open>filteredItems\<close>, with the weak helmet
  first.
\<close>

definition overfull :: Candidates where
  "overfull =
     \<lparr>helms = map (\<lambda>i. sampleItem (''h'' @ showNat i) None 10 5) [0..<100]
                @ [sampleItem ''hw'' None 10 3],
      gaunts = map (\<lambda>i. sampleItem (''g'' @ showNat i) None 10 5) [0..<100]
                @ [sampleItem ''gw'' None 10 2],
      chests = map (\<lambda>i. sampleItem (''c'' @ showNat i) None 10 5) [0..<199]
                @ [sampleItem ''cw'' None 10 1],
      legs = [sampleItem ''l'' None 10 5],
      classItems = [sampleItem ''k'' None 10 5]\<rparr>"

definition overfullTrimmed :: Candidates where
  "overfullTrimmed =
     \<lparr>helms = map (\<lambda>i. sampleItem (''h'' @ showNat i) None 10 5) [0..<100],
      gaunts = map (\<lambda>i. sampleItem (''g'' @ showNat i) None 10 5) [0..<100],
      chests = map (\<lambda>i. sampleItem (''c'' @ showNat i) None 10 5) [0..<199],
      legs = [sampleItem ''l'' None 10 5],
      classItems = [sampleItem ''k'' None 10 5]\<rparr>"

definition overfullItems :: ProcessItemsByBucket where
  "overfullItems =
     [Helmet \<mapsto> sampleItem ''hw'' None 10 3
                  # map (\<lambda>i. sampleItem (''h'' @ showNat i) None 10 5) [0..<100],
      Gauntlets \<mapsto> gaunts overfull, Chest \<mapsto> chests overfull, Leg \<mapsto> legs overfull,
      ClassItem \<mapsto> classItems overfull]"

text \<open>
  Two helmets with 5 and with 25 in every stat, the weaker one first, and one
  item with 5 in every stat in each other bucket; the lists as \<open>process\<close> has
  them after sorting; \<open>withHelmet5\<close> is the combination of a helmet with the four
  other items.
\<close>

definition twoHelmets :: ProcessItemsByBucket where
  "twoHelmets =
     [Helmet \<mapsto> [sampleItem ''h1'' None 10 5, sampleItem ''h2'' None 10 25],
      Gauntlets \<mapsto> [sampleItem ''g'' None 10 5], Chest \<mapsto> [sampleItem ''c'' None 10 5],
      Leg \<mapsto> [sampleItem ''l'' None 10 5], ClassItem \<mapsto> [sampleItem ''k'' None 10 5]]"

definition twoHelmetsSorted :: Candidates where
  "twoHelmetsSorted =
     \<lparr>helms = [sampleItem ''h2'' None 10 25, sampleItem ''h1'' None 10 5],
      gaunts = [sampleItem ''g'' None 10 5], chests = [sampleItem ''c'' None 10 5],
      legs = [sampleItem ''l'' None 10 5], classItems = [sampleItem ''k'' None 10 5]\<rparr>"

definition withHelmet5 :: "ProcessItem \<Rightarrow> ProcessItem list" where
  "withHelmet5 helm =
     [helm, sampleItem ''g'' None 10 5, sampleItem ''c'' None 10 5, sampleItem ''l'' None 10 5,
      sampleItem ''k'' None 10 5]"

text \<open>A filter that admits the tiers 0 to 3 of Mobility and ignores Strength.\<close>

definition mixedFilter :: "StatTypes \<Rightarrow> MinMaxIgnored" where
  "mixedFilter =
     (\<lambda>s. \<lparr>min_tier = 0, max_tier = (if s = Mobility then 3 else 10), ignored = (s = Strength)\<rparr>)"

section \<open>Properties of the set tracker\<close>

lemma flatTracker_Nil [simp]: "flatTracker [] = []"
  by (simp add: flatTracker_def)

lemma flatTracker_Cons [simp]: "flatTracker (g # tr) = flatMixes (statMixes g) @ flatTracker tr"
  by (simp add: flatTracker_def flatMixes_def)

lemma flatTracker_append [simp]: "flatTracker (tr @ tr') = flatTracker tr @ flatTracker tr'"
  by (simp add: flatTracker_def)

lemma flatMixes_simps [simp]:
  "flatMixes [] = []"
  "flatMixes (m # ms) = armorSets m @ flatMixes ms"
  "flatMixes (ms @ ms') = flatMixes ms @ flatMixes ms'"
  by (simp_all add: flatMixes_def)

lemma wfMixes_simps [simp]:
  "wfMixes []"
  "wfMixes (m # ms) = (armorSets m \<noteq> [] \<and> wfMixes ms)"
  "wfMixes (ms @ ms') = (wfMixes ms \<and> wfMixes ms')"
  by (simp_all add: wfMixes_def)

lemma wfTracker_simps [simp]:
  "wfTracker []"
  "wfTracker (g # tr) = (statMixes g \<noteq> [] \<and> wfMixes (statMixes g) \<and> wfTracker tr)"
  "wfTracker (tr @ tr') = (wfTracker tr \<and> wfTracker tr')"
  by (auto simp add: wfTracker_def)

lemma insertArmorSet_Some:
  assumes "xs \<noteq> []"
  shows "\<exists>ys. insertArmorSet gp a xs = Some ys \<and> ys \<noteq> [] \<and> length ys = Suc (length xs)
           \<and> set ys = insert a (set xs)"
  using assms by (cases xs) (auto simp: insertArmorSet_def)

lemma insertStatMix_Some:
  assumes "ms \<noteq> []" and "wfMixes ms"
  shows "\<exists>ms'. insertStatMix gp sm a ms = Some ms' \<and> ms' \<noteq> [] \<and> wfMixes ms'
           \<and> length (flatMixes ms') = Suc (length (flatMixes ms))
           \<and> set (flatMixes ms') = insert a (set (flatMixes ms))"
  using assms
proof (induction ms)
  case Nil
  then show ?case by simp
next
  case (Cons cur rest)
  show ?case
  proof (cases "sm > statMix cur")
    case True
    then show ?thesis using Cons.prems by (simp add: newStatMixGroup_def)
  next
    case notgt: False
    show ?thesis
    proof (cases "statMix cur = sm")
      case True
      from Cons.prems have "armorSets cur \<noteq> []" by simp
      from insertArmorSet_Some [OF this, of gp a] obtain ys where
        ys: "insertArmorSet gp a (armorSets cur) = Some ys" "ys \<noteq> []"
            "length ys = Suc (length (armorSets cur))" "set ys = insert a (set (armorSets cur))"
        by blast
      with True notgt Cons.prems show ?thesis by simp
    next
      case False
      show ?thesis
      proof (cases rest)
        case Nil
        with False notgt Cons.prems show ?thesis by (simp add: newStatMixGroup_def)
      next
        case (Cons r rs)
        with Cons.prems Cons.IH obtain ms' where
          "insertStatMix gp sm a rest = Some ms'" "ms' \<noteq> []" "wfMixes ms'"
          "length (flatMixes ms') = Suc (length (flatMixes rest))"
          "set (flatMixes ms') = insert a (set (flatMixes rest))"
          by auto
        with False notgt Cons Cons.prems show ?thesis by simp
      qed
    qed
  qed
qed

lemma insertTier_Some:
  assumes "tr \<noteq> []" and "wfTracker tr"
  shows "\<exists>tr'. insertTier gp t sm a tr = Some tr' \<and> tr' \<noteq> [] \<and> wfTracker tr'
           \<and> length (flatTracker tr') = Suc (length (flatTracker tr))
           \<and> set (flatTracker tr') = insert a (set (flatTracker tr))"
  using assms
proof (induction tr)
  case Nil
  then show ?case by simp
next
  case (Cons cur rest)
  show ?case
  proof (cases "t > tier cur")
    case True
    then show ?thesis using Cons.prems by (simp add: newTierGroup_def newStatMixGroup_def)
  next
    case notgt: False
    show ?thesis
    proof (cases "t = tier cur")
      case True
      from Cons.prems have "statMixes cur \<noteq> []" "wfMixes (statMixes cur)" by simp_all
      from insertStatMix_Some [OF this, of gp sm a] obtain ms' where
        "insertStatMix gp sm a (statMixes cur) = Some ms'" "ms' \<noteq> []" "wfMixes ms'"
          "length (flatMixes ms') = Suc (length (flatMixes (statMixes cur)))"
          "set (flatMixes ms') = insert a (set (flatMixes (statMixes cur)))"
        by blast
      with True notgt Cons.prems show ?thesis by simp
    next
      case False
      show ?thesis
      proof (cases rest)
        case Nil
        with False notgt Cons.prems show ?thesis
          by (simp add: newTierGroup_def newStatMixGroup_def)
      next
        case (Cons r rs)
        with Cons.prems Cons.IH obtain tr' where
          "insertTier gp t sm a rest = Some tr'" "tr' \<noteq> []" "wfTracker tr'"
          "length (flatTracker tr') = Suc (length (flatTracker rest))"
          "set (flatTracker tr') = insert a (set (flatTracker rest))"
          by auto
        with False notgt Cons Cons.prems show ?thesis by simp
      qed
    qed
  qed
qed

lemma insertIntoSetTracker_wf:
  assumes "wfTracker tr"
  shows "wfTracker (insertIntoSetTracker gp t sm a tr)"
    and "insertIntoSetTracker gp t sm a tr \<noteq> []"
    and "length (flatTracker (insertIntoSetTracker gp t sm a tr)) = Suc (length (flatTracker tr))"
    and "set (flatTracker (insertIntoSetTracker gp t sm a tr)) = insert a (set (flatTracker tr))"
proof -
  have "wfTracker (insertIntoSetTracker gp t sm a tr)
      \<and> insertIntoSetTracker gp t sm a tr \<noteq> []
      \<and> length (flatTracker (insertIntoSetTracker gp t sm a tr)) = Suc (length (flatTracker tr))
      \<and> set (flatTracker (insertIntoSetTracker gp t sm a tr)) = insert a (set (flatTracker tr))"
  proof (cases tr)
    case Nil
    then show ?thesis
      by (simp add: insertIntoSetTracker_def newTierGroup_def newStatMixGroup_def)
  next
    case (Cons g gs)
    then have "tr \<noteq> []" by simp
    from insertTier_Some [OF this assms, of gp t sm a] obtain tr' where
      "insertTier gp t sm a tr = Some tr'" "tr' \<noteq> []" "wfTracker tr'"
      "length (flatTracker tr') = Suc (length (flatTracker tr))"
      "set (flatTracker tr') = insert a (set (flatTracker tr))"
      by blast
    with \<open>tr \<noteq> []\<close> show ?thesis
      by (simp add: insertIntoSetTracker_def)
  qed
  then show "wfTracker (insertIntoSetTracker gp t sm a tr)"
    and "insertIntoSetTracker gp t sm a tr \<noteq> []"
    and "length (flatTracker (insertIntoSetTracker gp t sm a tr)) = Suc (length (flatTracker tr))"
    and "set (flatTracker (insertIntoSetTracker gp t sm a tr)) = insert a (set (flatTracker tr))"
    by simp_all
qed

lemma dropWorst_ok:
  assumes wf: "wfTracker tr" and len: "2 \<le> length (flatTracker tr)"
  shows "\<exists>tr' l'. dropWorst tr l = Inr (tr', l') \<and> wfTracker tr'
           \<and> flatTracker tr' = butlast (flatTracker tr)"
proof -
  from len have "tr \<noteq> []" by auto
  then obtain front g where tr: "tr = front @ [g]"
    by (cases tr rule: rev_cases) auto
  from wf tr have g: "statMixes g \<noteq> []" "wfMixes (statMixes g)" and wfront: "wfTracker front"
    by simp_all
  from g(1) obtain mfront m where ms: "statMixes g = mfront @ [m]"
    by (cases "statMixes g" rule: rev_cases) auto
  from g(2) ms have m: "armorSets m \<noteq> []" and wmfront: "wfMixes mfront"
    by simp_all
  from m obtain afront x where as: "armorSets m = afront @ [x]"
    by (cases "armorSets m" rule: rev_cases) auto
  have flat: "flatTracker tr = flatTracker front @ flatMixes mfront @ afront @ [x]"
    by (simp add: tr ms as)
  then have bl: "butlast (flatTracker tr) = flatTracker front @ flatMixes mfront @ afront"
    by (simp add: butlast_append)
  have "\<exists>tr' l'. dropWorst tr l = Inr (tr', l') \<and> wfTracker tr'
           \<and> flatTracker tr' = flatTracker front @ flatMixes mfront @ afront"
  proof (cases "afront = []")
    case False
    then show ?thesis using wfront wmfront
      by (simp add: dropWorst_def Let_def tr ms as)
  next
    case a: True
    show ?thesis
    proof (cases "mfront = []")
      case False
      then show ?thesis using a wfront wmfront
        by (simp add: dropWorst_def Let_def tr ms as)
    next
      case mf: True
      with a flat len have "front \<noteq> []" by auto
      then show ?thesis using a mf wfront
        by (simp add: dropWorst_def Let_def tr ms as)
    qed
  qed
  with bl show ?thesis by simp
qed


lemma evaluateCombination_step:
  assumes inv: "trackerInv st"
    and tl: "tierLoop tierOf sf (length so) cs
               (startTiers (combinedStats mods so cache armor0) (statRanges st)) = (b, acc)"
  shows "\<exists>st'. evaluateCombination tierOf pw mods cache hasMods canTake so cs sf armor0 st = Inr st'
           \<and> trackerInv st'
           \<and> statRanges st' = accRanges acc
           \<and> set (flatTracker (setTracker st'))
                \<subseteq> insert \<lparr>armor = armor0, stats = accStats acc\<rparr> (set (flatTracker (setTracker st)))
           \<and> modChecks st' = modChecks st @ (if \<not> b \<and> hasMods then [map itemId armor0] else [])
           \<and> setCount st' =
               (if b \<or> (hasMods \<and> \<not> canTake armor0) then setCount st
                else min (Suc (setCount st)) RETURNED_ARMOR_SETS)
           \<and> (\<not> b \<and> \<not> (hasMods \<and> \<not> canTake armor0) \<and> setCount st < RETURNED_ARMOR_SETS
                \<longrightarrow> lowestTier st' = min (lowestTier st) (totalTier acc))"
proof (cases b)
  case True
  with inv tl show ?thesis
    by (auto simp add: evaluateCombination_def Let_def trackerInv_def)
next
  case nb: False
  from inv have le: "setCount st \<le> RETURNED_ARMOR_SETS" by (simp add: trackerInv_def)
  define st2 where "st2 = (if totalTier acc < lowestTier st
      then st\<lparr>statRanges := accRanges acc, lowestTier := totalTier acc\<rparr>
      else st\<lparr>statRanges := accRanges acc\<rparr>)"
  define st3 where "st3 = (if hasMods then st2\<lparr>modChecks := modChecks st2 @ [map itemId armor0]\<rparr>
                       else st2)"
  have st3_facts: "setTracker st3 = setTracker st" "setCount st3 = setCount st"
    "statRanges st3 = accRanges acc"
    "modChecks st3 = modChecks st @ (if hasMods then [map itemId armor0] else [])"
    by (simp_all add: st3_def st2_def)
  have inv3: "trackerInv st3" using inv by (simp add: trackerInv_def st3_facts)
  show ?thesis
  proof (cases "hasMods \<and> \<not> canTake armor0")
    case True
    have "evaluateCombination tierOf pw mods cache hasMods canTake so cs sf armor0 st = Inr st3"
      using True nb le tl by (simp add: evaluateCombination_def Let_def st3_def st2_def)
    with inv3 nb True show ?thesis by (auto simp: st3_facts)
  next
    case nomods: False
    let ?new = "\<lparr>armor = armor0, stats = accStats acc\<rparr>"
    let ?tr4 = "insertIntoSetTracker pw (totalTier acc) (tiers acc) ?new (setTracker st)"
    from inv have wf: "wfTracker (setTracker st)"
      and cnt: "setCount st = length (flatTracker (setTracker st))"
      by (simp_all add: trackerInv_def)
    note ins = insertIntoSetTracker_wf [OF wf, of pw "totalTier acc" "tiers acc" ?new]
    show ?thesis
    proof (cases "Suc (setCount st) > RETURNED_ARMOR_SETS")
      case False
      then show ?thesis using nomods nb tl ins cnt
        by (auto simp add: evaluateCombination_def Let_def trackerInv_def)
    next
      case over: True
      then have two: "2 \<le> length (flatTracker ?tr4)"
        using ins(3) cnt by (simp add: RETURNED_ARMOR_SETS_def)
      from dropWorst_ok [OF ins(1) two, of "lowestTier st"] obtain tr1 l1 where
        dw1: "dropWorst ?tr4 (lowestTier st) = Inr (tr1, l1)" "wfTracker tr1"
            "flatTracker tr1 = butlast (flatTracker ?tr4)"
        by blast
      from dropWorst_ok [OF ins(1) two, of "totalTier acc"] obtain tr2 l2 where
        dw2: "dropWorst ?tr4 (totalTier acc) = Inr (tr2, l2)" "wfTracker tr2"
            "flatTracker tr2 = butlast (flatTracker ?tr4)"
        by blast
      have sub: "set (butlast (flatTracker ?tr4)) \<subseteq> insert ?new (set (flatTracker (setTracker st)))"
        using ins(4) by (auto dest: in_set_butlastD)
      have len: "length (butlast (flatTracker ?tr4)) = setCount st"
        using ins(3) cnt by simp
      show ?thesis using nomods nb tl over le dw1 dw2 sub len
        by (auto simp add: evaluateCombination_def Let_def trackerInv_def)
    qed
  qed
qed


section \<open>Properties of the loops\<close>

lemma forEach_append:
  "forEach (xs @ ys) body s =
     (case forEach xs body s of Inl e \<Rightarrow> Inl e | Inr s' \<Rightarrow> forEach ys body s')"
  by (induction xs arbitrary: s) (auto split: sum.splits)

lemma forEach_map: "forEach (map f xs) body s = forEach xs (\<lambda>x. body (f x)) s"
  by (induction xs arbitrary: s) (auto split: sum.splits)

lemma forEach_concat_map:
  "forEach (concat (map f xs)) body s = forEach xs (\<lambda>x. forEach (f x) body) s"
  by (induction xs arbitrary: s) (auto simp: forEach_append split: sum.splits)

lemma forEach_if:
  "forEach (if b then [] else xs) body s = (if b then Inr s else forEach xs body s)"
  by simp

lemma forEach_concat_map_fun:
  "forEach (concat (map f xs)) body = forEach xs (\<lambda>x. forEach (f x) body)"
  by (rule ext) (rule forEach_concat_map)

lemma forEach_map_fun: "forEach (map f xs) body = forEach xs (\<lambda>x. body (f x))"
  by (rule ext) (rule forEach_map)

lemma forEach_if_fun:
  "forEach (if b then [] else xs) body = (\<lambda>s. if b then Inr s else forEach xs body s)"
  by (rule ext) simp

lemma searchCombinations_flat:
  "searchCombinations c evaluate st = forEach (combinations c) evaluate st"
  by (simp add: searchCombinations_def combinations_def forEach_concat_map_fun forEach_map_fun
      forEach_if_fun forEach_concat_map forEach_map cong: if_cong)

lemma forEach_inv:
  assumes "I s" and "\<And>x s. x \<in> set xs \<Longrightarrow> I s \<Longrightarrow> \<exists>s'. body x s = Inr s' \<and> I s'"
  shows "\<exists>s'. forEach xs body s = Inr s' \<and> I s'"
  using assms
proof (induction xs arbitrary: s)
  case Nil
  then show ?case by simp
next
  case (Cons x xs)
  from Cons.prems obtain s1 where s1: "body x s = Inr s1" "I s1" by force
  from Cons.IH [OF s1(2)] Cons.prems(2) obtain s' where "forEach xs body s1 = Inr s'" "I s'"
    by force
  with s1 show ?case by simp
qed


lemma set_insortBy: "set (insortBy cmp x xs) = insert x (set xs)"
  by (induction xs) auto

lemma length_insortBy: "length (insortBy cmp x xs) = Suc (length xs)"
  by (induction xs) auto

lemma set_arraySort: "set (arraySort cmp xs) = set xs"
  by (induction xs) (simp_all add: arraySort_def set_insortBy)

lemma length_arraySort: "length (arraySort cmp xs) = length xs"
  by (induction xs) (simp_all add: arraySort_def length_insortBy)

lemma insortBy_first: "(\<And>y. y \<in> set xs \<Longrightarrow> cmp x y \<le> 0) \<Longrightarrow> insortBy cmp x xs = x # xs"
  by (cases xs) auto

lemma arraySort_sorted:
  "sorted_wrt (\<lambda>x y. cmp x y \<le> 0) xs \<Longrightarrow> arraySort cmp xs = xs"
proof (induction xs)
  case Nil
  then show ?case by (simp add: arraySort_def)
next
  case (Cons x xs)
  then have "arraySort cmp xs = xs" by simp
  then have "arraySort cmp (x # xs) = insortBy cmp x xs" by (simp add: arraySort_def)
  with Cons.prems show ?case by (simp add: insortBy_first)
qed

lemma chainComparator_compareBy:
  "chainComparator (map compareBy ks) a b \<le> 0 \<longleftrightarrow> map (\<lambda>k. k a) ks \<le> map (\<lambda>k. k b) ks"
  by (induction ks) (auto simp: compareBy_def Let_def)

lemma compareByStatOrder_key:
  "compareByStatOrder totalHash hs a b \<le> 0
     \<longleftrightarrow> statOrderKey totalHash hs a \<le> statOrderKey totalHash hs b"
proof -
  let ?ks = "(\<lambda>i. sum_list (map (\<lambda>h. - baseStats i h) hs))
               # map (\<lambda>h i. - baseStats i h) hs @ [\<lambda>i. - baseStats i totalHash]"
  have "compareByStatOrder totalHash hs = chainComparator (map compareBy ?ks)"
    by (simp add: compareByStatOrder_def comp_def)
  moreover have "map (\<lambda>k. k x) ?ks = statOrderKey totalHash hs x" for x
    by (simp add: statOrderKey_def comp_def)
  ultimately show ?thesis
    using chainComparator_compareBy [of ?ks a b] by simp
qed

lemma insortBy_insort_key:
  "(\<And>a b. cmp a b \<le> 0 \<longleftrightarrow> key a \<le> key b) \<Longrightarrow> insortBy cmp x xs = insort_key key x xs"
  by (induction xs) simp_all

lemma arraySort_sort_key:
  "(\<And>a b. cmp a b \<le> 0 \<longleftrightarrow> key a \<le> key b) \<Longrightarrow> arraySort cmp xs = sort_key key xs"
  by (induction xs) (simp_all add: arraySort_def insortBy_insort_key)

lemma arraySort_compareByStatOrder:
  "arraySort (compareByStatOrder totalHash hs) xs = sort_key (statOrderKey totalHash hs) xs"
  by (rule arraySort_sort_key) (rule compareByStatOrder_key)

lemma insort_key_last:
  "(\<And>y. y \<in> set xs \<Longrightarrow> key y < key x) \<Longrightarrow> insort_key key x xs = xs @ [x]"
  by (induction xs) (auto simp: not_le [symmetric] simp del: not_le)

lemma minByFrom_le: "f (minByFrom f b xs) \<le> f b \<and> (\<forall>x\<in>set xs. f (minByFrom f b xs) \<le> f x)"
proof (induction xs arbitrary: b)
  case Nil
  then show ?case by simp
next
  case (Cons x xs)
  from Cons.IH [of "if f x < f b then x else b"] show ?case by (auto split: if_splits)
qed

lemma trimStep_removes:
  assumes "0 < comboCount c"
  shows "\<exists>c'. trimStep h c = Inr c' \<and> removesWeakestLast h c c'"
proof -
  from assms have ne: "helms c \<noteq> []" "gaunts c \<noteq> []" "chests c \<noteq> []" "legs c \<noteq> []"
    by (auto simp: comboCount_def)
  let ?f = "\<lambda>l. baseStats (last (candidateList c l)) h"
  define l where "l = minByFrom ?f Helmet [Gauntlets, Chest, Leg]"
  have mb: "minBy ?f [Helmet, Gauntlets, Chest, Leg] = Some l"
    by (simp add: minBy_def l_def)
  from minBy_four [OF mb] have l4: "l = Helmet \<or> l = Gauntlets \<or> l = Chest \<or> l = Leg" by auto
  from minByFrom_le [of ?f Helmet "[Gauntlets, Chest, Leg]"]
  have le: "?f l \<le> ?f Helmet" "?f l \<le> ?f Gauntlets" "?f l \<le> ?f Chest" "?f l \<le> ?f Leg"
    by (simp_all add: l_def)
  have "trimStep h c = Inr (popList l c)"
    using ne mb by (simp add: trimStep_def)
  moreover have "removesWeakestLast h c (popList l c)"
    unfolding removesWeakestLast_def lastTotal_def
  proof (intro exI [of _ l] conjI)
    show "helms (popList l c) = (if l = Helmet then butlast (helms c) else helms c)"
      "gaunts (popList l c) = (if l = Gauntlets then butlast (gaunts c) else gaunts c)"
      "chests (popList l c) = (if l = Chest then butlast (chests c) else chests c)"
      "legs (popList l c) = (if l = Leg then butlast (legs c) else legs c)"
      "classItems (popList l c) = classItems c"
      using l4 by auto
  qed (use ne l4 le in simp_all)
  ultimately show ?thesis by blast
qed

lemma combosLimit_pos: "combosLimit < n \<Longrightarrow> 0 < n"
  by simp

lemma trimLoop_ok:
  "\<exists>c'. trimLoop h c = Inr c' \<and> comboCount c' \<le> combosLimit
        \<and> (removesWeakestLast h)\<^sup>*\<^sup>* c c'"
proof (induction h c rule: trimLoop.induct)
  case (1 h c)
  show ?case
  proof (cases "comboCount c > combosLimit")
    case False
    then show ?thesis by (simp add: trimLoop.simps)
  next
    case True
    then have "0 < comboCount c" by simp
    from trimStep_removes [OF this, of h] obtain c1 where
      c1: "trimStep h c = Inr c1" "removesWeakestLast h c c1" by blast
    from "1.IH" [OF True c1(1)] obtain c' where
      c': "trimLoop h c1 = Inr c'" "comboCount c' \<le> combosLimit"
          "(removesWeakestLast h)\<^sup>*\<^sup>* c1 c'" by blast
    have "trimLoop h c = Inr c'"
      using True c1(1) c'(1) by (subst trimLoop.simps) simp
    moreover have "(removesWeakestLast h)\<^sup>*\<^sup>* c c'"
      using c1(2) c'(3) by (rule converse_rtranclp_into_rtranclp)
    ultimately show ?thesis using c'(2) by blast
  qed
qed

lemma trimLoop_rounds:
  "\<exists>c'. trimLoop h c = Inr c' \<and> comboCount c' \<le> combosLimit \<and> (trimRound h)\<^sup>*\<^sup>* c c'"
proof (induction h c rule: trimLoop.induct)
  case (1 h c)
  show ?case
  proof (cases "comboCount c > combosLimit")
    case False
    then show ?thesis by (simp add: trimLoop.simps)
  next
    case True
    then have "0 < comboCount c" by simp
    from trimStep_removes [OF this, of h] obtain c1 where
      c1: "trimStep h c = Inr c1" "removesWeakestLast h c c1" by blast
    from True c1(2) have round: "trimRound h c c1"
      by (simp add: trimRound_def combosLimit_def)
    from "1.IH" [OF True c1(1)] obtain c' where
      c': "trimLoop h c1 = Inr c'" "comboCount c' \<le> combosLimit"
          "(trimRound h)\<^sup>*\<^sup>* c1 c'" by blast
    have "trimLoop h c = Inr c'"
      using True c1(1) c'(1) by (subst trimLoop.simps) simp
    moreover have "(trimRound h)\<^sup>*\<^sup>* c c'"
      using round c'(3) by (rule converse_rtranclp_into_rtranclp)
    ultimately show ?thesis using c'(2) by blast
  qed
qed

lemma trimLoop_exceeds:
  assumes "combosLimit < comboCount c"
  shows "(\<exists>c1. trimStep totalHash c = Inr c1 \<and> removesWeakestLast totalHash c c1)
       \<and> (\<exists>c'. trimLoop totalHash c = Inr c' \<and> comboCount c' \<le> combosLimit
               \<and> (trimRound totalHash)\<^sup>+\<^sup>+ c c')"
proof -
  from assms have pos: "0 < comboCount c" by simp
  from trimStep_removes [OF pos, of totalHash] obtain c1 where
    c1: "trimStep totalHash c = Inr c1" "removesWeakestLast totalHash c c1" by blast
  from assms c1(2) have round: "trimRound totalHash c c1"
    by (simp add: trimRound_def combosLimit_def)
  from trimLoop_rounds [of totalHash c1] obtain c' where
    c': "trimLoop totalHash c1 = Inr c'" "comboCount c' \<le> combosLimit"
        "(trimRound totalHash)\<^sup>*\<^sup>* c1 c'" by blast
  have "trimLoop totalHash c = Inr c'"
    using assms c1(1) c'(1) by (subst trimLoop.simps) simp
  moreover from round c'(3) have "(trimRound totalHash)\<^sup>+\<^sup>+ c c'"
    by (rule rtranclp_into_tranclp2)
  ultimately show ?thesis using c1 c'(2) by auto
qed

lemma trimLoop_within: "comboCount c \<le> combosLimit \<Longrightarrow> trimLoop totalHash c = Inr c"
  by (subst trimLoop.simps) simp

lemma length_getStatValuesWithMWProcess:
  "length (getStatValuesWithMWProcess item mw hs) = length hs"
  by (simp add: getStatValuesWithMWProcess_def Let_def)

section \<open>Properties of process\<close>

lemma trackerInv_initialState: "trackerInv (initialState sf)"
  by (simp add: trackerInv_def initialState_def)

lemma evaluator_step:
  assumes "trackerInv st"
  shows "\<exists>st'. evaluator ext m lm mw so sf armor0 st = Inr st' \<and> trackerInv st'
           \<and> armor ` set (flatTracker (setTracker st'))
                \<subseteq> insert armor0 (armor ` set (flatTracker (setTracker st)))"
proof -
  obtain g ot r where sm: "sortMods ext lm = (g, ot, r)" by (cases "sortMods ext lm") auto
  let ?cache = "\<lambda>item. getStatValuesWithMWProcess item mw (map (statHashes ext) so)"
  obtain b acc where tl: "tierLoop (statTier ext) sf (length so) (consideredStats so sf)
      (startTiers (combinedStats m so ?cache armor0) (statRanges st)) = (b, acc)"
    by (cases "tierLoop (statTier ext) sf (length so) (consideredStats so sf)
      (startTiers (combinedStats m so ?cache armor0) (statRanges st))") auto
  from evaluateCombination_step [OF assms tl,
      of "getPower ext" "\<not> (ot = [] \<and> r = [] \<and> g = [])"
        "canTakeSlotIndependantMods ext (generateModPermutations ext g)
           (generateModPermutations ext ot) (generateModPermutations ext r)"]
  obtain st' where st': "evaluator ext m lm mw so sf armor0 st = Inr st'" "trackerInv st'"
    "set (flatTracker (setTracker st'))
       \<subseteq> insert \<lparr>armor = armor0, stats = accStats acc\<rparr> (set (flatTracker (setTracker st)))"
    unfolding evaluator_def Let_def sm prod.case by blast
  from st'(3) have "armor ` set (flatTracker (setTracker st'))
      \<subseteq> armor ` insert \<lparr>armor = armor0, stats = accStats acc\<rparr> (set (flatTracker (setTracker st)))"
    by (rule image_mono)
  then have "armor ` set (flatTracker (setTracker st'))
      \<subseteq> insert armor0 (armor ` set (flatTracker (setTracker st)))"
    by simp
  with st'(1,2) show ?thesis by simp
qed

lemma subset_insert_into: "A \<subseteq> insert x B \<Longrightarrow> x \<in> C \<Longrightarrow> B \<subseteq> C \<Longrightarrow> A \<subseteq> C"
  by blast

lemma search_inv:
  "\<exists>st. searchCombinations c (evaluator ext m lm mw so sf) (initialState sf) = Inr st
        \<and> trackerInv st \<and> armor ` set (flatTracker (setTracker st)) \<subseteq> set (combinations c)"
proof -
  let ?I = "\<lambda>s. trackerInv s \<and> armor ` set (flatTracker (setTracker s)) \<subseteq> set (combinations c)"
  have init: "?I (initialState sf)"
    by (simp add: trackerInv_initialState) (simp add: initialState_def)
  have step: "\<exists>s'. evaluator ext m lm mw so sf x s = Inr s' \<and> ?I s'"
    if "x \<in> set (combinations c)" and "?I s" for x s
  proof -
    from that(2) have inv: "trackerInv s"
      and old: "armor ` set (flatTracker (setTracker s)) \<subseteq> set (combinations c)"
      by simp_all
    from evaluator_step [OF inv, of ext m lm mw so sf x] obtain s' where
      s': "evaluator ext m lm mw so sf x s = Inr s'" "trackerInv s'"
          "armor ` set (flatTracker (setTracker s'))
             \<subseteq> insert x (armor ` set (flatTracker (setTracker s)))"
      by (elim exE conjE)
    from s'(3) that(1) old have "armor ` set (flatTracker (setTracker s')) \<subseteq> set (combinations c)"
      by (rule subset_insert_into)
    with s'(1,2) show ?thesis by simp
  qed
  from forEach_inv [of ?I, OF init step] show ?thesis
    by (simp add: searchCombinations_flat)
qed

lemma length_flattenSets: "length (flattenSets xs) = length xs"
  by (simp add: flattenSets_def)

lemma process_cases:
  obtains c where "trimLoop (TOTAL_STAT_HASH ext) (sortCandidates ext fi so sf) = Inr c"
      and "(removesWeakestLast (TOTAL_STAT_HASH ext))\<^sup>*\<^sup>* (sortCandidates ext fi so sf) c"
      and "comboCount c = 0"
      and "process ext fi m lm mw so sf =
             Inr \<lparr>returned = \<lparr>sets = [], combos = 0, combosWithoutCaps = 0,
                              resultStatRanges = None\<rparr>,
                  finalSets = [],
                  filteredItemsAfter = (\<lambda>bucket. map_option (\<lambda>l. candidateList c bucket) (fi bucket)),
                  modChecksDone = []\<rparr>"
  | c st where "trimLoop (TOTAL_STAT_HASH ext) (sortCandidates ext fi so sf) = Inr c"
      and "(removesWeakestLast (TOTAL_STAT_HASH ext))\<^sup>*\<^sup>* (sortCandidates ext fi so sf) c"
      and "comboCount c \<noteq> 0" and "comboCount c \<le> combosLimit"
      and "searchCombinations c (evaluator ext m lm mw so sf) (initialState sf) = Inr st"
      and "trackerInv st"
      and "armor ` set (flatTracker (setTracker st)) \<subseteq> set (combinations c)"
      and "process ext fi m lm mw so sf =
             Inr \<lparr>returned = \<lparr>sets = flattenSets (flatTracker (setTracker st)),
                              combos = comboCount c,
                              combosWithoutCaps = comboCount (sortCandidates ext fi so sf),
                              resultStatRanges = Some (statRanges st)\<rparr>,
                  finalSets = flatTracker (setTracker st),
                  filteredItemsAfter = (\<lambda>bucket. map_option (\<lambda>l. candidateList c bucket) (fi bucket)),
                  modChecksDone = modChecks st\<rparr>"
proof -
  from trimLoop_ok [of "TOTAL_STAT_HASH ext" "sortCandidates ext fi so sf"] obtain c where
    c: "trimLoop (TOTAL_STAT_HASH ext) (sortCandidates ext fi so sf) = Inr c"
       "comboCount c \<le> combosLimit"
       "(removesWeakestLast (TOTAL_STAT_HASH ext))\<^sup>*\<^sup>* (sortCandidates ext fi so sf) c"
    by blast
  show thesis
  proof (cases "comboCount c = 0")
    case True
    with c(1,3) that(1) [of c] show thesis by (simp add: process_def Let_def)
  next
    case False
    from search_inv [of c ext m lm mw so sf] obtain st where
      st: "searchCombinations c (evaluator ext m lm mw so sf) (initialState sf) = Inr st"
          "trackerInv st" "armor ` set (flatTracker (setTracker st)) \<subseteq> set (combinations c)"
      by blast
    with c False that(2) [of c st] show thesis by (simp add: process_def Let_def)
  qed
qed


lemma removesWeakestLast_take:
  assumes "removesWeakestLast h c c'"
  shows "\<exists>n. candidateList c' bucket = take n (candidateList c bucket)"
proof -
  have keep: "\<exists>n. xs = take n xs" for xs :: "ProcessItem list"
    by (rule exI [of _ "length xs"]) simp
  have pop: "\<exists>n. butlast xs = take n xs" for xs :: "ProcessItem list"
    by (rule exI [of _ "length xs - 1"]) (simp add: butlast_conv_take)
  from assms obtain l where
    "helms c' = (if l = Helmet then butlast (helms c) else helms c)"
    "gaunts c' = (if l = Gauntlets then butlast (gaunts c) else gaunts c)"
    "chests c' = (if l = Chest then butlast (chests c) else chests c)"
    "legs c' = (if l = Leg then butlast (legs c) else legs c)"
    "classItems c' = classItems c"
    unfolding removesWeakestLast_def by blast
  then show ?thesis
    by (cases bucket) (simp_all add: keep pop)
qed

lemma trimmed_take:
  assumes "(removesWeakestLast h)\<^sup>*\<^sup>* c c'"
  shows "\<exists>n. candidateList c' bucket = take n (candidateList c bucket)"
  using assms
proof (induction rule: rtranclp_induct)
  case base
  show ?case by (rule exI [of _ "length (candidateList c bucket)"]) simp
next
  case (step y z)
  from step.IH obtain n where n: "candidateList y bucket = take n (candidateList c bucket)" ..
  from removesWeakestLast_take [OF step.hyps(2), of bucket] obtain k where
    "candidateList z bucket = take k (candidateList y bucket)" ..
  with n have "candidateList z bucket = take (min k n) (candidateList c bucket)" by simp
  then show ?case ..
qed

lemma removesWeakestLast_classItems:
  "removesWeakestLast h c c' \<Longrightarrow> classItems c' = classItems c"
  unfolding removesWeakestLast_def by auto

lemma trimmed_classItems:
  "(removesWeakestLast h)\<^sup>*\<^sup>* c c' \<Longrightarrow> classItems c' = classItems c"
  by (induction rule: rtranclp_induct) (simp_all add: removesWeakestLast_classItems)

lemma candidateList_sortCandidates:
  "candidateList (sortCandidates ext fi so sf) bucket =
     arraySort (compareByStatOrder (TOTAL_STAT_HASH ext)
                  (map (statHashes ext) (consideredStats so sf)))
       (bucketItems fi bucket)"
  by (cases bucket) (simp_all add: sortCandidates_def Let_def)

lemma combinations_labels:
  assumes "a \<in> set (combinations c)" and "list_all (\<lambda>k. \<not> hasLabel k) (classItems c)"
  shows "length (filter hasLabel a) \<le> 1"
  using assms by (auto simp: combinations_def list_all_iff split: if_splits)

text \<open>
  Claim C4. When no class item of the input carries a label (its
  \<open>equippingLabel\<close> is absent or empty), every armor set that \<open>process\<close> returns
  holds at most one item with a label: the sets returned are the sets of the
  tracker with identifiers in place of items, every set of the tracker is a
  combination that the loops reached, and the loops skip every branch whose
  helmet, gauntlets, chest and leg hold two labelled items.
\<close>

theorem returned_sets_hold_one_labelled_item:
  assumes "list_all (\<lambda>item. \<not> hasLabel item) (bucketItems filteredItems ClassItem)"
  shows "\<exists>out. process ext filteredItems modStatTotals lockedModMap assumeMasterwork statOrder
                 statFilters = Inr out
              \<and> sets (returned out) = flattenSets (finalSets out)
              \<and> list_all (\<lambda>s. length (filter hasLabel (armor s)) \<le> 1) (finalSets out)"
proof (cases rule: process_cases [of ext filteredItems statOrder statFilters modStatTotals
        lockedModMap assumeMasterwork])
  case (1 c)
  then show ?thesis by (simp add: flattenSets_def)
next
  case (2 c st)
  let ?c0 = "sortCandidates ext filteredItems statOrder statFilters"
  have "classItems c = candidateList ?c0 ClassItem"
    using trimmed_classItems [OF 2(2)] by simp
  then have "set (classItems c) = set (bucketItems filteredItems ClassItem)"
    by (simp only: candidateList_sortCandidates set_arraySort)
  with assms have cls: "list_all (\<lambda>k. \<not> hasLabel k) (classItems c)"
    by (simp add: list_all_iff)
  have "length (filter hasLabel (armor s)) \<le> 1" if "s \<in> set (flatTracker (setTracker st))" for s
  proof -
    from that 2(7) have "armor s \<in> set (combinations c)" by blast
    then show ?thesis using cls by (rule combinations_labels)
  qed
  then have "list_all (\<lambda>s. length (filter hasLabel (armor s)) \<le> 1) (flatTracker (setTracker st))"
    by (simp add: list_all_iff)
  with 2(8) show ?thesis by simp
qed

theorem returned_sets_hold_one_labelled_item_witness:
  "list_all (\<lambda>item. \<not> hasLabel item) (bucketItems exoticItems ClassItem)
   \<and> (\<exists>out. process sampleImports exoticItems noMods [] False allStats noFilter = Inr out
              \<and> sets (returned out) = flattenSets (finalSets out)
              \<and> list_all (\<lambda>s. length (filter hasLabel (armor s)) \<le> 1) (finalSets out))"
proof -
  have h: "list_all (\<lambda>item. \<not> hasLabel item) (bucketItems exoticItems ClassItem)"
    by (simp add: exoticItems_def bucketItems_def hasLabel_def sampleItem_def)
  from h returned_sets_hold_one_labelled_item [OF h, of sampleImports noMods "[]" False allStats noFilter]
  show ?thesis by (rule conjI)
qed

text \<open>
  Claim C8. When the product of the five list lengths exceeds 2,000,000, the
  trimming loop returns with a product of at most 2,000,000, and each of its
  rounds is a removal in the sense of \<open>removesWeakestLast\<close>: one of the four
  lists of helmets, gauntlets, chests and legs loses its last item, that item
  has the lowest total stat among the last items of the four lists, and the
  other lists are untouched. The first round is such a removal, and the result
  is reached from the start by one or more rounds (\<open>trimRound\<close>), each of them
  such a removal from lists whose product exceeds 2,000,000.
\<close>

theorem trimLoop_pops_weakest_until_cap:
  assumes "2000000 < comboCount c"
  shows "(\<exists>c1. trimStep totalHash c = Inr c1 \<and> removesWeakestLast totalHash c c1)
       \<and> (\<exists>c'. trimLoop totalHash c = Inr c' \<and> comboCount c' \<le> 2000000
               \<and> (trimRound totalHash)\<^sup>+\<^sup>+ c c')"
  using trimLoop_exceeds [of c totalHash] assms by (simp add: combosLimit_def)

lemma comboCount_crowded: "comboCount crowded = 2000250"
  by (simp add: crowded_def comboCount_def)

lemma comboCount_overfull: "comboCount overfull = 2040200"
  by (simp add: overfull_def comboCount_def)

lemma comboCount_overfullTrimmed: "comboCount overfullTrimmed = 1990000"
  by (simp add: overfullTrimmed_def comboCount_def)

lemma trimStep_overfull:
  "trimStep 0 overfull = Inr (overfull\<lparr>chests := map (\<lambda>i. sampleItem (''c'' @ showNat i) None 10 5) [0..<199]\<rparr>)"
  by (simp add: trimStep_def overfull_def minBy_def sampleItem_def)

lemma trimLoop_overfull: "trimLoop 0 overfull = Inr overfullTrimmed"
  apply (subst trimLoop.simps)
  apply (simp add: trimStep_overfull)
  apply (simp add: overfull_def comboCount_def combosLimit_def)
  apply (subst trimLoop.simps)
  apply (simp add: trimStep_def minBy_def sampleItem_def comboCount_def combosLimit_def last_map)
  apply (subst trimLoop.simps)
  apply (simp add: trimStep_def minBy_def sampleItem_def comboCount_def combosLimit_def last_map)
  apply (subst trimLoop.simps)
  apply (simp add: comboCount_def combosLimit_def overfullTrimmed_def sampleItem_def)
  done

text \<open>
  The trimming of \<open>overfull\<close> takes three rounds, none of them a tie: the last
  chest (total 6) goes first, then the last gauntlets (total 12), then the last
  helmet (total 18), and the leg and the class item stay.
\<close>

theorem trimLoop_pops_weakest_until_cap_witness:
  "2000000 < comboCount overfull
   \<and> trimStep 0 overfull
       = Inr (overfull\<lparr>chests := map (\<lambda>i. sampleItem (''c'' @ showNat i) None 10 5) [0..<199]\<rparr>)
   \<and> removesWeakestLast 0 overfull
       (overfull\<lparr>chests := map (\<lambda>i. sampleItem (''c'' @ showNat i) None 10 5) [0..<199]\<rparr>)
   \<and> trimLoop 0 overfull = Inr overfullTrimmed
   \<and> comboCount overfullTrimmed = 1990000
   \<and> (trimRound 0)\<^sup>+\<^sup>+ overfull overfullTrimmed"
proof -
  have h: "2000000 < comboCount overfull" by (simp add: comboCount_overfull)
  from trimLoop_pops_weakest_until_cap [OF h, of 0] h show ?thesis
    by (auto simp: trimStep_overfull trimLoop_overfull comboCount_overfullTrimmed)
qed

text \<open>
  Claim C10. \<open>process\<close> changes the arrays that its caller handed in. A bucket
  that was absent stays absent. A list \<open>l\<close> handed in is first sorted: the local
  array is the stable sort of \<open>l\<close> by the key of the stat-order comparator
  (\<open>sort_key\<close> with \<open>statOrderKey\<close>), with every item kept. What the caller's
  list is after the call is the same array after the trimming (\<open>c\<close>): when the
  product of the five lengths is at most 2,000,000 nothing is popped and the
  list is that sorted list; when the product exceeds 2,000,000 the arrays are
  reached from the sorted ones by one or more rounds of the trimming
  (\<open>trimRound\<close>), each of which pops the last item of one list, and their
  product is at most 2,000,000. In both cases the list is an initial part of
  the sorted list.
\<close>

theorem process_sorts_and_pops_callers_lists:
  "\<exists>out c. process ext filteredItems modStatTotals lockedModMap assumeMasterwork statOrder
              statFilters = Inr out
     \<and> trimLoop (TOTAL_STAT_HASH ext) (sortCandidates ext filteredItems statOrder statFilters)
         = Inr c
     \<and> comboCount c \<le> 2000000
     \<and> (if comboCount (sortCandidates ext filteredItems statOrder statFilters) \<le> 2000000
        then c = sortCandidates ext filteredItems statOrder statFilters
        else (trimRound (TOTAL_STAT_HASH ext))\<^sup>+\<^sup>+
               (sortCandidates ext filteredItems statOrder statFilters) c)
     \<and> (\<forall>bucket.
           case filteredItems bucket of
             None \<Rightarrow> filteredItemsAfter out bucket = None
           | Some l \<Rightarrow>
               candidateList (sortCandidates ext filteredItems statOrder statFilters) bucket
                 = sort_key (statOrderKey (TOTAL_STAT_HASH ext)
                               (map (statHashes ext) (consideredStats statOrder statFilters))) l
               \<and> filteredItemsAfter out bucket = Some (candidateList c bucket)
               \<and> (\<exists>n. candidateList c bucket
                        = take n (sort_key (statOrderKey (TOTAL_STAT_HASH ext)
                              (map (statHashes ext) (consideredStats statOrder statFilters))) l)))"
proof -
  let ?c0 = "sortCandidates ext filteredItems statOrder statFilters"
  let ?key = "statOrderKey (TOTAL_STAT_HASH ext)
                (map (statHashes ext) (consideredStats statOrder statFilters))"
  have sorted0: "candidateList ?c0 bucket = sort_key ?key l"
    if "filteredItems bucket = Some l" for bucket l
    using that
    by (simp add: candidateList_sortCandidates bucketItems_def arraySort_compareByStatOrder)
  have pops: "if comboCount ?c0 \<le> 2000000 then c = ?c0
              else (trimRound (TOTAL_STAT_HASH ext))\<^sup>+\<^sup>+ ?c0 c"
    if "trimLoop (TOTAL_STAT_HASH ext) ?c0 = Inr c" for c
  proof (cases "comboCount ?c0 \<le> 2000000")
    case True
    then have "trimLoop (TOTAL_STAT_HASH ext) ?c0 = Inr ?c0"
      by (simp add: trimLoop_within combosLimit_def)
    with that True show ?thesis by simp
  next
    case False
    then have "combosLimit < comboCount ?c0" by (simp add: combosLimit_def)
    from trimLoop_exceeds [OF this, of "TOTAL_STAT_HASH ext"] that False
    show ?thesis by auto
  qed
  have lists: "case filteredItems bucket of
          None \<Rightarrow> after bucket = None
        | Some l \<Rightarrow> candidateList ?c0 bucket = sort_key ?key l
            \<and> after bucket = Some (candidateList c bucket)
            \<and> (\<exists>n. candidateList c bucket = take n (sort_key ?key l))"
    if "(removesWeakestLast (TOTAL_STAT_HASH ext))\<^sup>*\<^sup>* ?c0 c"
      and "after = (\<lambda>bucket. map_option (\<lambda>l. candidateList c bucket) (filteredItems bucket))"
    for c bucket and after :: ProcessItemsByBucket
  proof (cases "filteredItems bucket")
    case None
    then show ?thesis by (simp add: that(2))
  next
    case (Some l)
    from trimmed_take [OF that(1), of bucket] obtain n where
      "candidateList c bucket = take n (candidateList ?c0 bucket)" ..
    then have "\<exists>n. candidateList c bucket = take n (sort_key ?key l)"
      by (auto simp: sorted0 [OF Some])
    with Some sorted0 [OF Some] show ?thesis by (simp add: that(2))
  qed
  show ?thesis
  proof (cases rule: process_cases [of ext filteredItems statOrder statFilters modStatTotals
        lockedModMap assumeMasterwork])
    case (1 c)
    from 1(4) obtain out where out: "process ext filteredItems modStatTotals lockedModMap
        assumeMasterwork statOrder statFilters = Inr out"
      "filteredItemsAfter out =
         (\<lambda>bucket. map_option (\<lambda>l. candidateList c bucket) (filteredItems bucket))"
      by simp
    from 1(3) have "comboCount c \<le> 2000000" by simp
    with out(1) 1(1) pops [OF 1(1)] lists [OF 1(2) out(2)] show ?thesis by blast
  next
    case (2 c st)
    from 2(8) obtain out where out: "process ext filteredItems modStatTotals lockedModMap
        assumeMasterwork statOrder statFilters = Inr out"
      "filteredItemsAfter out =
         (\<lambda>bucket. map_option (\<lambda>l. candidateList c bucket) (filteredItems bucket))"
      by simp
    from 2(4) have "comboCount c \<le> 2000000" by (simp add: combosLimit_def)
    with out(1) 2(1) pops [OF 2(1)] lists [OF 2(2) out(2)] show ?thesis by blast
  qed
qed

section \<open>The stat resolver\<close>

lemma getStatValuesWithMWProcess_flat_or_base:
  "getStatValuesWithMWProcess item assumeMasterwork orderedStatValues =
     map (\<lambda>statHash.
            max ((if ProcessItem.sockets item \<noteq> None \<and> truthyEnergy (energy item)
                  then addFlatMasterwork orderedStatValues (baseStats item)
                  else baseStats item) statHash) 0)
       orderedStatValues"
  by (cases "ProcessItem.sockets item") (simp_all add: getStatValuesWithMWProcess_def Let_def)

text \<open>
  Claim C3. The claim fails on the code: the inner test
  \<open>assumeMasterwork || item.energy\<close> stands under \<open>item.sockets && item.energy\<close>,
  so it always holds and the plug branch is never run
  (\<open>getStatValuesWithMWProcess_flat_or_base\<close>). For \<open>masterworkItem\<close>, with
  masterwork not assumed, the code adds 2 to both requested stats, where the
  plug branch would add the bonus of the plug 7 to the first stat only; with a
  numeric energy of 0 the code adds nothing at all.
\<close>

theorem plug_branch_is_never_taken:
  "getStatValuesWithMWProcess masterworkItem False [1, 2] = [12, 12]
   \<and> getStatValuesWithMWProcess (masterworkItem\<lparr>energy := EnergyNumber 0\<rparr>) False [1, 2] = [10, 10]
   \<and> (\<exists>s. ProcessItem.sockets masterworkItem = Some s
          \<and> masterworkSocketHashes s = [7]
          \<and> map (fold (addPlugStats [1, 2] (masterworkSocketHashes s)) (ProcessSockets.sockets s)
                    (baseStats masterworkItem)) [1, 2] = [11, 10])"
  by (simp add: getStatValuesWithMWProcess_flat_or_base masterworkItem_def addFlatMasterwork_def
      masterworkSocketHashes_def addPlugStats_def List.map_filter_simps)

section \<open>Concrete runs\<close>

text \<open>Concrete runs use the fields of \<open>sampleImports\<close> one at a time.\<close>

lemma sampleImports_simps:
  "TOTAL_STAT_HASH sampleImports = 0"
  "statHashes sampleImports Mobility = 1"
  "statHashes sampleImports Resilience = 2"
  "statHashes sampleImports Recovery = 3"
  "statHashes sampleImports Discipline = 4"
  "statHashes sampleImports Intellect = 5"
  "statHashes sampleImports Strength = 6"
  "statTier sampleImports = (\<lambda>v. v div 10)"
  "getPower sampleImports = (\<lambda>items. sum_list (map basePower items))"
  by (simp_all add: sampleImports_def)

lemma compare_sampleItem:
  "compareByStatOrder 0 hs (sampleItem n l p v) (sampleItem n' l' p' v) = 0"
proof -
  have chain: "chainComparator cs a b = 0" if "\<And>c. c \<in> set cs \<Longrightarrow> c a b = 0"
    for cs :: "(ProcessItem \<Rightarrow> ProcessItem \<Rightarrow> int) list" and a b
    using that by (induction cs) simp_all
  show ?thesis
    unfolding compareByStatOrder_def
    by (rule chain) (auto simp: compareBy_def sampleItem_def)
qed

lemma arraySort_same_stats:
  assumes "\<And>x. x \<in> set xs \<Longrightarrow> \<exists>n l p. x = sampleItem n l p v"
  shows "arraySort (compareByStatOrder 0 hs) xs = xs"
proof (rule arraySort_sorted)
  have "sorted_wrt (\<lambda>x y. True) xs" by simp
  then show "sorted_wrt (\<lambda>x y. compareByStatOrder 0 hs x y \<le> 0) xs"
  proof (rule sorted_wrt_mono_rel [rotated])
    fix x y assume "x \<in> set xs" "y \<in> set xs"
    with assms obtain n l p n' l' p' where "x = sampleItem n l p v" "y = sampleItem n' l' p' v"
      by blast
    then show "compareByStatOrder 0 hs x y \<le> 0" by (simp add: compare_sampleItem)
  qed
qed

lemma sortCandidates_crowded:
  "sortCandidates sampleImports crowdedItems so sf = crowded"
proof -
  have "arraySort (compareByStatOrder 0 hs) (candidateList crowded b) = candidateList crowded b"
    for hs b
    by (rule arraySort_same_stats [where v = 2]) (cases b; auto simp: crowded_def)
  from this [of _ Helmet] this [of _ Gauntlets] this [of _ Chest] this [of _ Leg]
    this [of _ ClassItem]
  show ?thesis
    by (simp add: sortCandidates_def Let_def crowdedItems_def bucketItems_def sampleImports_def)
qed

lemma trimStep_crowded: "trimStep 0 crowded = Inr (popList Helmet crowded)"
  by (simp add: trimStep_def minBy_def crowded_def sampleItem_def last_map)

lemma trimLoop_crowded: "trimLoop 0 crowded = Inr (popList Helmet crowded)"
proof -
  have "comboCount (popList Helmet crowded) = 0"
    by (simp add: comboCount_def crowded_def)
  then have "trimLoop 0 (popList Helmet crowded) = Inr (popList Helmet crowded)"
    by (subst trimLoop.simps) simp
  then show ?thesis
    by (subst trimLoop.simps) (simp add: comboCount_crowded combosLimit_def trimStep_crowded)
qed

text \<open>
  Claim C9. The claim fails on the code where trimming empties a list: for
  \<open>crowdedItems\<close> the product of the five lengths is 2,000,250, the first round
  of the trimming pops the only helmet (all last items have the same total,
  and the helmets come first), the product is then 0, and the early return
  reports \<open>combosWithoutCaps\<close> as 0.
\<close>

theorem combosWithoutCaps_lost_when_trimmed_to_nothing:
  "length (bucketItems crowdedItems Helmet) * length (bucketItems crowdedItems Gauntlets)
     * length (bucketItems crowdedItems Chest) * length (bucketItems crowdedItems Leg)
     * length (bucketItems crowdedItems ClassItem) = 2000250
   \<and> map_sum id (\<lambda>out. (combos (returned out), combosWithoutCaps (returned out)))
        (process sampleImports crowdedItems noMods [] False allStats noFilter) = Inr (0, 0)"
proof -
  have "comboCount (popList Helmet crowded) = 0"
    by (simp add: comboCount_def crowded_def)
  then have "map_sum id (\<lambda>out. (combos (returned out), combosWithoutCaps (returned out)))
        (process sampleImports crowdedItems noMods [] False allStats noFilter) = Inr (0, 0)"
    by (simp add: process_def Let_def sortCandidates_crowded trimLoop_crowded
        sampleImports_simps)
  moreover have "length (bucketItems crowdedItems Helmet) * length (bucketItems crowdedItems Gauntlets)
     * length (bucketItems crowdedItems Chest) * length (bucketItems crowdedItems Leg)
     * length (bucketItems crowdedItems ClassItem) = 2000250"
    by (simp add: crowdedItems_def bucketItems_def crowded_def)
  ultimately show ?thesis by simp
qed

lemma sortCandidates_unsortedHelmets:
  "sortCandidates sampleImports unsortedHelmets allStats noFilter =
     \<lparr>helms = [sampleItem ''strong'' None 10 2, sampleItem ''weak'' None 10 0],
      gaunts = [], chests = [], legs = [], classItems = []\<rparr>"
  by (simp add: sortCandidates_def Let_def unsortedHelmets_def bucketItems_def arraySort_def
      sampleImports_simps consideredStats_def allStats_def noFilter_def compareByStatOrder_def
      compareBy_def sampleItem_def)

lemma statOrderKey_sampleItem:
  "statOrderKey 0 [1, 2, 3, 4, 5, 6] (sampleItem n l p v)
     = [- (6 * v), - v, - v, - v, - v, - v, - v, - (6 * v)]"
  by (simp add: statOrderKey_def sampleItem_def)

lemma sort_key_overfull:
  "sort_key (statOrderKey 0 [1, 2, 3, 4, 5, 6]) (candidateList overfull b) = candidateList overfull b"
  by (rule sort_key_id_if_sorted)
    (cases b; simp add: overfull_def statOrderKey_sampleItem sorted_append comp_def sorted_map)

lemma sortCandidates_overfullItems:
  "sortCandidates sampleImports overfullItems allStats noFilter = overfull"
proof -
  let ?key = "statOrderKey 0 [1, 2, 3, 4, 5, 6]"
  let ?strong = "map (\<lambda>i. sampleItem (''h'' @ showNat i) None 10 5) [0..<100]"
  have "sort_key ?key ?strong = ?strong"
    by (rule sort_key_id_if_sorted) (simp add: statOrderKey_sampleItem comp_def sorted_map)
  then have "sort_key ?key (sampleItem ''hw'' None 10 3 # ?strong)
      = insort_key ?key (sampleItem ''hw'' None 10 3) ?strong"
    by simp
  also have "\<dots> = ?strong @ [sampleItem ''hw'' None 10 3]"
    by (rule insort_key_last) (auto simp: statOrderKey_sampleItem)
  finally have helm: "sort_key ?key (sampleItem ''hw'' None 10 3 # ?strong) = helms overfull"
    by (simp add: overfull_def)
  from sort_key_overfull [of Gauntlets] sort_key_overfull [of Chest] sort_key_overfull [of Leg]
    sort_key_overfull [of ClassItem] helm
  show ?thesis
    by (simp add: sortCandidates_def Let_def overfullItems_def bucketItems_def
        arraySort_compareByStatOrder sampleImports_simps consideredStats_def allStats_def
        noFilter_def)
qed

text \<open>
  Claim C10 on two runs. The lists of \<open>overfullItems\<close> have 2,040,200
  combinations: after the call the weak helmet, handed in first, is gone, and
  so are the last gauntlets and the last chest, while the leg and the class
  item are as they were. The two helmets of \<open>unsortedHelmets\<close> are in the other
  order after the call, both kept, and the absent bucket of gauntlets stays
  absent.
\<close>

theorem process_sorts_and_pops_callers_lists_witness:
  "(\<exists>out. process sampleImports overfullItems noMods [] False allStats noFilter = Inr out
        \<and> overfullItems Helmet
            = Some (sampleItem ''hw'' None 10 3
                     # map (\<lambda>i. sampleItem (''h'' @ showNat i) None 10 5) [0..<100])
        \<and> filteredItemsAfter out Helmet
            = Some (map (\<lambda>i. sampleItem (''h'' @ showNat i) None 10 5) [0..<100])
        \<and> overfullItems Gauntlets
            = Some (map (\<lambda>i. sampleItem (''g'' @ showNat i) None 10 5) [0..<100]
                     @ [sampleItem ''gw'' None 10 2])
        \<and> filteredItemsAfter out Gauntlets
            = Some (map (\<lambda>i. sampleItem (''g'' @ showNat i) None 10 5) [0..<100])
        \<and> filteredItemsAfter out Chest
            = Some (map (\<lambda>i. sampleItem (''c'' @ showNat i) None 10 5) [0..<199])
        \<and> filteredItemsAfter out Leg = overfullItems Leg
        \<and> filteredItemsAfter out ClassItem = overfullItems ClassItem)
   \<and> (\<exists>out. process sampleImports unsortedHelmets noMods [] False allStats noFilter = Inr out
         \<and> unsortedHelmets Helmet
             = Some [sampleItem ''weak'' None 10 0, sampleItem ''strong'' None 10 2]
         \<and> filteredItemsAfter out Helmet
             = Some [sampleItem ''strong'' None 10 2, sampleItem ''weak'' None 10 0]
         \<and> filteredItemsAfter out Gauntlets = None)"
proof -
  from process_sorts_and_pops_callers_lists
    [of sampleImports overfullItems noMods "[]" False allStats noFilter]
  obtain out c where out:
    "process sampleImports overfullItems noMods [] False allStats noFilter = Inr out"
    "trimLoop (TOTAL_STAT_HASH sampleImports)
       (sortCandidates sampleImports overfullItems allStats noFilter) = Inr c"
    "\<forall>bucket. case overfullItems bucket of
        None \<Rightarrow> filteredItemsAfter out bucket = None
      | Some l \<Rightarrow>
          candidateList (sortCandidates sampleImports overfullItems allStats noFilter) bucket
            = sort_key (statOrderKey (TOTAL_STAT_HASH sampleImports)
                 (map (statHashes sampleImports) (consideredStats allStats noFilter))) l
          \<and> filteredItemsAfter out bucket = Some (candidateList c bucket)
          \<and> (\<exists>n. candidateList c bucket
                   = take n (sort_key (statOrderKey (TOTAL_STAT_HASH sampleImports)
                        (map (statHashes sampleImports) (consideredStats allStats noFilter))) l))"
    by blast
  from out(2) have c: "c = overfullTrimmed"
    by (simp add: sortCandidates_overfullItems sampleImports_simps trimLoop_overfull)
  have after: "filteredItemsAfter out bucket = Some (candidateList overfullTrimmed bucket)"
    for bucket
    using out(3) [rule_format, of bucket]
    by (cases bucket) (simp_all add: overfullItems_def c)
  have first: "\<exists>out. process sampleImports overfullItems noMods [] False allStats noFilter = Inr out
        \<and> overfullItems Helmet
            = Some (sampleItem ''hw'' None 10 3
                     # map (\<lambda>i. sampleItem (''h'' @ showNat i) None 10 5) [0..<100])
        \<and> filteredItemsAfter out Helmet
            = Some (map (\<lambda>i. sampleItem (''h'' @ showNat i) None 10 5) [0..<100])
        \<and> overfullItems Gauntlets
            = Some (map (\<lambda>i. sampleItem (''g'' @ showNat i) None 10 5) [0..<100]
                     @ [sampleItem ''gw'' None 10 2])
        \<and> filteredItemsAfter out Gauntlets
            = Some (map (\<lambda>i. sampleItem (''g'' @ showNat i) None 10 5) [0..<100])
        \<and> filteredItemsAfter out Chest
            = Some (map (\<lambda>i. sampleItem (''c'' @ showNat i) None 10 5) [0..<199])
        \<and> filteredItemsAfter out Leg = overfullItems Leg
        \<and> filteredItemsAfter out ClassItem = overfullItems ClassItem"
    using out(1) after [of Helmet] after [of Gauntlets] after [of Chest] after [of Leg]
      after [of ClassItem]
    by (simp add: overfullItems_def overfullTrimmed_def overfull_def)
  from process_sorts_and_pops_callers_lists
    [of sampleImports unsortedHelmets noMods "[]" False allStats noFilter]
  obtain out2 c2 where out2:
    "process sampleImports unsortedHelmets noMods [] False allStats noFilter = Inr out2"
    "if comboCount (sortCandidates sampleImports unsortedHelmets allStats noFilter) \<le> 2000000
     then c2 = sortCandidates sampleImports unsortedHelmets allStats noFilter
     else (trimRound (TOTAL_STAT_HASH sampleImports))\<^sup>+\<^sup>+
            (sortCandidates sampleImports unsortedHelmets allStats noFilter) c2"
    "\<forall>bucket. case unsortedHelmets bucket of
        None \<Rightarrow> filteredItemsAfter out2 bucket = None
      | Some l \<Rightarrow>
          candidateList (sortCandidates sampleImports unsortedHelmets allStats noFilter) bucket
            = sort_key (statOrderKey (TOTAL_STAT_HASH sampleImports)
                 (map (statHashes sampleImports) (consideredStats allStats noFilter))) l
          \<and> filteredItemsAfter out2 bucket = Some (candidateList c2 bucket)
          \<and> (\<exists>n. candidateList c2 bucket
                   = take n (sort_key (statOrderKey (TOTAL_STAT_HASH sampleImports)
                        (map (statHashes sampleImports) (consideredStats allStats noFilter))) l))"
    by blast
  from out2(2) have c2: "c2 = \<lparr>helms = [sampleItem ''strong'' None 10 2, sampleItem ''weak'' None 10 0],
      gaunts = [], chests = [], legs = [], classItems = []\<rparr>"
    by (simp add: sortCandidates_unsortedHelmets comboCount_def)
  from out2(3) [rule_format, of Helmet] out2(3) [rule_format, of Gauntlets]
  have "filteredItemsAfter out2 Helmet
          = Some [sampleItem ''strong'' None 10 2, sampleItem ''weak'' None 10 0]"
    "filteredItemsAfter out2 Gauntlets = None"
    by (simp_all add: unsortedHelmets_def c2)
  then have second: "\<exists>out. process sampleImports unsortedHelmets noMods [] False allStats noFilter = Inr out
         \<and> unsortedHelmets Helmet
             = Some [sampleItem ''weak'' None 10 0, sampleItem ''strong'' None 10 2]
         \<and> filteredItemsAfter out Helmet
             = Some [sampleItem ''strong'' None 10 2, sampleItem ''weak'' None 10 0]
         \<and> filteredItemsAfter out Gauntlets = None"
    using out2(1) by (simp add: unsortedHelmets_def)
  from first second show ?thesis by (rule conjI)
qed

text \<open>A run that trims nothing, in terms of the loop over the combinations.\<close>

lemma process_no_trim:
  assumes "sortCandidates ext fi so sf = c" and "comboCount c \<le> combosLimit"
    and "comboCount c \<noteq> 0"
  shows "process ext fi m lm mw so sf =
           (case forEach (combinations c) (evaluator ext m lm mw so sf) (initialState sf) of
              Inl e \<Rightarrow> Inl e
            | Inr st \<Rightarrow>
                Inr \<lparr>returned = \<lparr>sets = flattenSets (flatTracker (setTracker st)),
                                 combos = comboCount c,
                                 combosWithoutCaps = comboCount c,
                                 resultStatRanges = Some (statRanges st)\<rparr>,
                     finalSets = flatTracker (setTracker st),
                     filteredItemsAfter =
                       (\<lambda>bucket. map_option (\<lambda>l. candidateList c bucket) (fi bucket)),
                     modChecksDone = modChecks st\<rparr>)"
proof -
  from assms(2) have "trimLoop (TOTAL_STAT_HASH ext) c = Inr c"
    by (subst trimLoop.simps) simp
  with assms(1,3) show ?thesis
    by (simp add: process_def Let_def searchCombinations_flat)
qed

lemma sortCandidates_oneOfEach: "sortCandidates ext (oneOfEach v) so sf = oneOfEachSorted v"
  by (simp add: sortCandidates_def Let_def oneOfEach_def oneOfEachSorted_def bucketItems_def
      arraySort_def)

lemma combinations_oneOfEach: "combinations (oneOfEachSorted v) = [oneArmor v]"
  by (simp add: combinations_def oneOfEachSorted_def oneArmor_def hasLabel_def sampleItem_def)

lemma comboCount_oneOfEach: "comboCount (oneOfEachSorted v) = 1"
  by (simp add: comboCount_def oneOfEachSorted_def)

lemma evaluator_sample:
  "evaluator sampleImports m [] mw so sf =
     evaluateCombination (\<lambda>v. v div 10) (\<lambda>items. sum_list (map basePower items)) m
       (\<lambda>item. getStatValuesWithMWProcess item mw (map (statHashes sampleImports) so))
       False (\<lambda>items. True) so (consideredStats so sf) sf"
  by (simp add: evaluator_def sortMods_def Let_def sampleImports_def)

lemma statsCache_sampleItem:
  "getStatValuesWithMWProcess (sampleItem n l p v) mw (map (statHashes sampleImports) allStats)
     = [max v 0, max v 0, max v 0, max v 0, max v 0, max v 0]"
  by (simp add: getStatValuesWithMWProcess_def sampleItem_def allStats_def sampleImports_simps)

lemma combinedStats_oneArmor:
  "combinedStats noMods allStats
     (\<lambda>item. getStatValuesWithMWProcess item mw (map (statHashes sampleImports) allStats))
     (oneArmor v) s = 5 * max v 0"
  by (cases s; simp add: combinedStats_def oneArmor_def statsCache_sampleItem addItemStats_def)
    (simp_all add: allStats_def noMods_def)

lemmas run_defs = evaluateCombination_def combinedStats_def getStatValuesWithMWProcess_def
  sampleImports_simps addItemStats_def consideredStats_def allStats_def noMods_def
  initialState_def startTiers_def observeTier_def showInt_def showNat.simps
  RETURNED_ARMOR_SETS_def insertIntoSetTracker_def insertArmorSet_def newTierGroup_def
  newStatMixGroup_def sampleItem_def flattenSets_def Let_def

text \<open>
  Claim C7. The claim fails on the code for ignored stats: the clamp
  \<open>if (stats[statKey] > 100) stats[statKey] = 100\<close> stands in the loop over the
  considered stats only. With one item per bucket, 30 in every stat of every
  item, and Mobility ignored, the set returned has Mobility 150 (and Resilience
  100).
\<close>

theorem ignored_stat_is_not_clamped:
  "map_sum id (\<lambda>out. map (\<lambda>s. (armor s, stats s Mobility, stats s Resilience))
                         (sets (returned out)))
     (process sampleImports (oneOfEach 30) noMods [] False allStats ignoreMobility)
   = Inr [([''h'', ''g'', ''c'', ''l'', ''k''], 150, 100)]"
proof -
  have "comboCount (oneOfEachSorted 30) \<le> combosLimit" "comboCount (oneOfEachSorted 30) \<noteq> 0"
    by (simp_all add: comboCount_oneOfEach combosLimit_def)
  note run = process_no_trim [OF sortCandidates_oneOfEach this]
  show ?thesis
    unfolding run combinations_oneOfEach evaluator_sample
    by (simp add: run_defs oneArmor_def ignoreMobility_def)
qed

text \<open>
  Claim C5, as stated, fails on the code: the range of a stat is updated before
  the filter of that stat is tested. With one item per bucket, 10 in every stat
  of every item, and a filter that admits the tiers 0 to 3 of Mobility, the
  only combination has Mobility tier 5; it is rejected, no set is returned, and
  the range returned for Mobility is \<open>{min: 5, max: 5}\<close>.
\<close>

theorem tier_outside_filter_is_observed:
  "map_sum id (\<lambda>out. (sets (returned out),
                       map_option (\<lambda>r. (min_tier (r Mobility), max_tier (r Mobility)))
                         (resultStatRanges (returned out))))
     (process sampleImports (oneOfEach 10) noMods [] False allStats capMobility)
   = Inr ([], Some (5, 5))
   \<and> min_tier (capMobility Mobility) = 0 \<and> max_tier (capMobility Mobility) = 3
   \<and> \<not> ignored (capMobility Mobility)"
proof -
  have "comboCount (oneOfEachSorted 10) \<le> combosLimit" "comboCount (oneOfEachSorted 10) \<noteq> 0"
    by (simp_all add: comboCount_oneOfEach combosLimit_def)
  note run = process_no_trim [OF sortCandidates_oneOfEach this]
  show ?thesis
    unfolding run combinations_oneOfEach evaluator_sample
    by (simp add: run_defs oneArmor_def capMobility_def)
qed

lemma sortCandidates_threeHelmets:
  "sortCandidates sampleImports threeHelmets so sf = threeHelmetsSorted"
proof -
  have "arraySort (compareByStatOrder 0 hs) (candidateList threeHelmetsSorted b)
          = candidateList threeHelmetsSorted b" for hs b
    by (rule arraySort_same_stats [where v = 2]) (cases b; auto simp: threeHelmetsSorted_def)
  from this [of _ Helmet] this [of _ Gauntlets] this [of _ Chest] this [of _ Leg]
    this [of _ ClassItem]
  show ?thesis
    by (simp add: sortCandidates_def Let_def threeHelmets_def threeHelmetsSorted_def
        bucketItems_def sampleImports_simps)
qed

lemma combinations_threeHelmets:
  "combinations threeHelmetsSorted =
     [[sampleItem ''h1'' None 100 2, sampleItem ''g'' None 10 2, sampleItem ''c'' None 10 2,
       sampleItem ''l'' None 10 2, sampleItem ''k'' None 10 2],
      [sampleItem ''h2'' None 50 2, sampleItem ''g'' None 10 2, sampleItem ''c'' None 10 2,
       sampleItem ''l'' None 10 2, sampleItem ''k'' None 10 2],
      [sampleItem ''h3'' None 75 2, sampleItem ''g'' None 10 2, sampleItem ''c'' None 10 2,
       sampleItem ''l'' None 10 2, sampleItem ''k'' None 10 2]]"
  by (simp add: combinations_def threeHelmetsSorted_def hasLabel_def sampleItem_def)

text \<open>
  Claim C2. The claim fails on the code inside a stat mix: the loop over the
  sets of the mix returns in its first round, so the new set is compared with
  the first member only and is pushed at the end when its power is not greater.
  Three sets of one tier and one stat mix with the powers 140, 90 and 115,
  inserted in this order, are returned in this order.
\<close>

theorem sets_of_one_stat_mix_not_ordered_by_power:
  "map_sum id (\<lambda>out. map (\<lambda>s. (map itemId (armor s), getPower sampleImports (armor s)))
                         (finalSets out))
     (process sampleImports threeHelmets noMods [] False allStats noFilter)
   = Inr [([''h1'', ''g'', ''c'', ''l'', ''k''], 140),
          ([''h2'', ''g'', ''c'', ''l'', ''k''], 90),
          ([''h3'', ''g'', ''c'', ''l'', ''k''], 115)]"
proof -
  have "comboCount threeHelmetsSorted \<le> combosLimit" "comboCount threeHelmetsSorted \<noteq> 0"
    by (simp_all add: comboCount_def threeHelmetsSorted_def combosLimit_def)
  note run = process_no_trim [OF sortCandidates_threeHelmets this]
  show ?thesis
    unfolding run combinations_threeHelmets evaluator_sample
    by (simp add: run_defs noFilter_def flatTracker_def)
qed

section \<open>The stat ranges\<close>

lemma observedTiers_keys: "fst ` set (observedTiers tierOf sf ks stats0) \<subseteq> set ks"
  by (induction ks arbitrary: stats0) (auto simp: Let_def)

lemma tierLoop_ranges:
  "accRanges (snd (tierLoop tierOf sf n ks acc)) =
     fold observeStat (observedTiers tierOf sf ks (accStats acc)) (accRanges acc)"
  by (induction ks arbitrary: acc) (simp_all add: Let_def observeStat_def)

lemma evaluator_ranges:
  assumes "trackerInv st"
  shows "\<exists>st'. evaluator ext m lm mw so sf armor0 st = Inr st' \<and> trackerInv st'
           \<and> statRanges st' = fold observeStat (observedBy ext m mw so sf armor0) (statRanges st)"
proof -
  obtain g ot r where sm: "sortMods ext lm = (g, ot, r)" by (cases "sortMods ext lm") auto
  let ?cache = "\<lambda>item. getStatValuesWithMWProcess item mw (map (statHashes ext) so)"
  let ?start = "startTiers (combinedStats m so ?cache armor0) (statRanges st)"
  obtain b acc where tl: "tierLoop (statTier ext) sf (length so) (consideredStats so sf) ?start
      = (b, acc)"
    by (cases "tierLoop (statTier ext) sf (length so) (consideredStats so sf) ?start") auto
  from evaluateCombination_step [OF assms tl,
      of "getPower ext" "\<not> (ot = [] \<and> r = [] \<and> g = [])"
        "canTakeSlotIndependantMods ext (generateModPermutations ext g)
           (generateModPermutations ext ot) (generateModPermutations ext r)"]
  obtain st' where st': "evaluator ext m lm mw so sf armor0 st = Inr st'" "trackerInv st'"
    "statRanges st' = accRanges acc"
    unfolding evaluator_def Let_def sm prod.case by blast
  from tierLoop_ranges [of "statTier ext" sf "length so" "consideredStats so sf" ?start] tl
  have "accRanges acc = fold observeStat (observedBy ext m mw so sf armor0) (statRanges st)"
    by (simp add: observedBy_def startTiers_def)
  with st' show ?thesis by simp
qed

lemma forEach_ranges:
  assumes "trackerInv s"
  shows "\<exists>s'. forEach xs (evaluator ext m lm mw so sf) s = Inr s' \<and> trackerInv s'
           \<and> statRanges s' =
               fold observeStat (concat (map (observedBy ext m mw so sf) xs)) (statRanges s)"
  using assms
proof (induction xs arbitrary: s)
  case Nil
  then show ?case by simp
next
  case (Cons x xs)
  from evaluator_ranges [OF Cons.prems, of ext m lm mw so sf x] obtain s1 where
    s1: "evaluator ext m lm mw so sf x s = Inr s1" "trackerInv s1"
        "statRanges s1 = fold observeStat (observedBy ext m mw so sf x) (statRanges s)"
    by blast
  from Cons.IH [OF s1(2)] obtain s' where
    "forEach xs (evaluator ext m lm mw so sf) s1 = Inr s'" "trackerInv s'"
    "statRanges s' =
       fold observeStat (concat (map (observedBy ext m mw so sf) xs)) (statRanges s1)"
    by blast
  with s1 show ?case by simp
qed

lemma observeTier_min_max:
  "observeTier t r = \<lparr>min_tier = min (min_tier r) t, max_tier = max (max_tier r) t\<rparr>"
  by (simp add: observeTier_def Let_def min_def max_def)

lemma fold_observeStat_min:
  "min_tier (fold observeStat obs r k) = fold min (tiersSeen obs k) (min_tier (r k))"
  by (induction obs arbitrary: r)
    (auto simp: tiersSeen_def observeStat_def observeTier_min_max min.commute)

lemma fold_observeStat_max:
  "max_tier (fold observeStat obs r k) = fold max (tiersSeen obs k) (max_tier (r k))"
  by (induction obs arbitrary: r)
    (auto simp: tiersSeen_def observeStat_def observeTier_min_max max.commute)

lemma fold_observeStat_Min_Max:
  "fold observeStat obs r k =
     \<lparr>min_tier = Min (set (min_tier (r k) # tiersSeen obs k)),
      max_tier = Max (set (max_tier (r k) # tiersSeen obs k))\<rparr>"
proof -
  have "min_tier (fold observeStat obs r k) = Min (set (min_tier (r k) # tiersSeen obs k))"
    by (simp only: fold_observeStat_min Min.set_eq_fold)
  moreover have "max_tier (fold observeStat obs r k) = Max (set (max_tier (r k) # tiersSeen obs k))"
    by (simp only: fold_observeStat_max Max.set_eq_fold)
  ultimately show ?thesis by (cases "fold observeStat obs r k") simp
qed

lemma tiersSeen_ignored:
  assumes "ignored (sf stat)"
  shows "tiersSeen (concat (map (observedBy ext m mw so sf) xs)) stat = []"
proof -
  let ?obs = "concat (map (observedBy ext m mw so sf) xs)"
  have "fst ` set ?obs \<subseteq> set (consideredStats so sf)"
    using observedTiers_keys by (fastforce simp: observedBy_def)
  moreover from assms have "stat \<notin> set (consideredStats so sf)"
    by (simp add: consideredStats_def)
  ultimately have "stat \<notin> fst ` set ?obs" by blast
  then have "filter (\<lambda>ob. fst ob = stat) ?obs = []"
    by (auto simp: filter_empty_conv simp del: set_concat)
  then show ?thesis by (simp add: tiersSeen_def)
qed

text \<open>
  Claim C5, amended. Whenever the trimmed product is not zero, \<open>process\<close>
  returns stat ranges, and they are exactly what the observations of the run
  make of the initial ranges (\<open>{min: 0, max: 10}\<close> for an ignored stat,
  \<open>{min: 10, max: 0}\<close> for any other). The observations of a combination that
  the loops reach are the tiers of the considered stats in priority order, up
  to and including the first stat whose tier fails its filter (\<open>observedBy\<close>).
  So the range of an ignored stat is \<open>{min: 0, max: 10}\<close>, and for any other
  stat the minimum is the least of 10 and the observed tiers of that stat and
  the maximum the greatest of 0 and these tiers: a tier is incorporated when,
  and only when, every considered stat before it in the priority order passes
  its filter in that combination, whether or not the tier lies within the
  stat's own filter.
\<close>

theorem stat_ranges_observe_before_filtering:
  assumes trim: "trimLoop (TOTAL_STAT_HASH ext) (sortCandidates ext filteredItems statOrder
                   statFilters) = Inr c"
    and ne: "comboCount c \<noteq> 0"
  shows "\<exists>out ranges.
           process ext filteredItems modStatTotals lockedModMap assumeMasterwork statOrder
             statFilters = Inr out
         \<and> resultStatRanges (returned out) = Some ranges
         \<and> ranges =
             fold observeStat
               (concat (map (observedBy ext modStatTotals assumeMasterwork statOrder statFilters)
                          (combinations c)))
               (\<lambda>stat. if ignored (statFilters stat) then \<lparr>min_tier = 0, max_tier = 10\<rparr>
                        else \<lparr>min_tier = 10, max_tier = 0\<rparr>)
         \<and> (\<forall>stat. ranges stat =
               (if ignored (statFilters stat) then \<lparr>min_tier = 0, max_tier = 10\<rparr>
                else \<lparr>min_tier = Min (set (10 # tiersSeen
                          (concat (map (observedBy ext modStatTotals assumeMasterwork statOrder
                                          statFilters) (combinations c))) stat)),
                      max_tier = Max (set (0 # tiersSeen
                          (concat (map (observedBy ext modStatTotals assumeMasterwork statOrder
                                          statFilters) (combinations c))) stat))\<rparr>))"
proof -
  let ?obs = "concat (map (observedBy ext modStatTotals assumeMasterwork statOrder statFilters)
                (combinations c))"
  let ?init = "\<lambda>stat. if ignored (statFilters stat) then \<lparr>min_tier = 0, max_tier = 10\<rparr>
                        else \<lparr>min_tier = 10, max_tier = 0\<rparr>"
  from forEach_ranges [OF trackerInv_initialState, of "combinations c" ext modStatTotals
      lockedModMap assumeMasterwork statOrder statFilters statFilters]
  obtain st where st: "forEach (combinations c)
        (evaluator ext modStatTotals lockedModMap assumeMasterwork statOrder statFilters)
        (initialState statFilters) = Inr st"
    "statRanges st = fold observeStat ?obs (statRanges (initialState statFilters))"
    by blast
  from st(2) have exact: "statRanges st = fold observeStat ?obs ?init"
    by (simp add: initialState_def)
  let ?out = "\<lparr>returned = \<lparr>sets = flattenSets (flatTracker (setTracker st)),
                            combos = comboCount c,
                            combosWithoutCaps = comboCount (sortCandidates ext filteredItems
                               statOrder statFilters),
                            resultStatRanges = Some (statRanges st)\<rparr>,
                finalSets = flatTracker (setTracker st),
                filteredItemsAfter =
                  (\<lambda>bucket. map_option (\<lambda>l. candidateList c bucket) (filteredItems bucket)),
                modChecksDone = modChecks st\<rparr>"
  have run: "process ext filteredItems modStatTotals lockedModMap assumeMasterwork statOrder
      statFilters = Inr ?out"
    using trim ne st(1) by (simp add: process_def Let_def searchCombinations_flat)
  have each: "statRanges st stat =
      (if ignored (statFilters stat) then \<lparr>min_tier = 0, max_tier = 10\<rparr>
       else \<lparr>min_tier = Min (set (10 # tiersSeen ?obs stat)),
             max_tier = Max (set (0 # tiersSeen ?obs stat))\<rparr>)" for stat
  proof (cases "ignored (statFilters stat)")
    case True
    from True have "tiersSeen ?obs stat = []" by (rule tiersSeen_ignored)
    then show ?thesis
      unfolding exact fold_observeStat_Min_Max [of ?obs ?init stat] using True by simp
  next
    case False
    then show ?thesis
      unfolding exact fold_observeStat_Min_Max [of ?obs ?init stat] by simp
  qed
  have "resultStatRanges (returned ?out) = Some (statRanges st)" by simp
  with run exact each show ?thesis by blast
qed

lemma sortCandidates_twoHelmets:
  "sortCandidates sampleImports twoHelmets allStats mixedFilter = twoHelmetsSorted"
  by (simp add: sortCandidates_def Let_def twoHelmets_def twoHelmetsSorted_def bucketItems_def
      arraySort_def sampleImports_simps consideredStats_def allStats_def mixedFilter_def
      compareByStatOrder_def compareBy_def sampleItem_def)

lemma combinations_twoHelmets:
  "combinations twoHelmetsSorted =
     [withHelmet5 (sampleItem ''h2'' None 10 25), withHelmet5 (sampleItem ''h1'' None 10 5)]"
  by (simp add: combinations_def twoHelmetsSorted_def hasLabel_def sampleItem_def withHelmet5_def)

lemma observedBy_twoHelmets:
  "observedBy sampleImports noMods False allStats mixedFilter
     (withHelmet5 (sampleItem ''h2'' None 10 25)) = [(Mobility, 4)]"
  "observedBy sampleImports noMods False allStats mixedFilter
     (withHelmet5 (sampleItem ''h1'' None 10 5))
     = [(Mobility, 2), (Resilience, 2), (Recovery, 2), (Discipline, 2), (Intellect, 2)]"
  by (simp_all add: observedBy_def combinedStats_def withHelmet5_def
      getStatValuesWithMWProcess_def sampleImports_simps addItemStats_def consideredStats_def
      allStats_def noMods_def mixedFilter_def sampleItem_def Let_def)

text \<open>
  The amended claim on a run: with \<open>mixedFilter\<close> and the two helmets, the
  combination with the strong helmet has Mobility tier 4, above the filter's
  maximum 3, and is rejected at Mobility; the other combination has tier 2 in
  every stat and passes. The range of the ignored Strength is \<open>{min: 0, max: 10}\<close>,
  the range of Mobility is \<open>{min: 2, max: 4}\<close>, and the range of Resilience is
  \<open>{min: 2, max: 2}\<close>: the Resilience tier 4 of the rejected combination is not
  in it.
\<close>

theorem stat_ranges_observe_before_filtering_witness:
  "\<exists>out ranges.
      process sampleImports twoHelmets noMods [] False allStats mixedFilter = Inr out
    \<and> resultStatRanges (returned out) = Some ranges
    \<and> ignored (mixedFilter Strength)
    \<and> ranges Strength = \<lparr>min_tier = 0, max_tier = 10\<rparr>
    \<and> \<not> ignored (mixedFilter Mobility) \<and> max_tier (mixedFilter Mobility) = 3
    \<and> ranges Mobility = \<lparr>min_tier = 2, max_tier = 4\<rparr>
    \<and> \<not> ignored (mixedFilter Resilience)
    \<and> ranges Resilience = \<lparr>min_tier = 2, max_tier = 2\<rparr>"
proof -
  have trim: "trimLoop (TOTAL_STAT_HASH sampleImports)
      (sortCandidates sampleImports twoHelmets allStats mixedFilter) = Inr twoHelmetsSorted"
    unfolding sortCandidates_twoHelmets
    by (subst trimLoop.simps) (simp add: comboCount_def twoHelmetsSorted_def combosLimit_def)
  have ne: "comboCount twoHelmetsSorted \<noteq> 0"
    by (simp add: comboCount_def twoHelmetsSorted_def)
  from stat_ranges_observe_before_filtering [OF trim ne, of noMods "[]" False]
  obtain out ranges where out:
    "process sampleImports twoHelmets noMods [] False allStats mixedFilter = Inr out"
    "resultStatRanges (returned out) = Some ranges"
    "\<forall>stat. ranges stat =
       (if ignored (mixedFilter stat) then \<lparr>min_tier = 0, max_tier = 10\<rparr>
        else \<lparr>min_tier = Min (set (10 # tiersSeen
                  (concat (map (observedBy sampleImports noMods False allStats mixedFilter)
                             (combinations twoHelmetsSorted))) stat)),
              max_tier = Max (set (0 # tiersSeen
                  (concat (map (observedBy sampleImports noMods False allStats mixedFilter)
                             (combinations twoHelmetsSorted))) stat))\<rparr>)"
    by blast
  have seen: "concat (map (observedBy sampleImports noMods False allStats mixedFilter)
      (combinations twoHelmetsSorted))
      = [(Mobility, 4), (Mobility, 2), (Resilience, 2), (Recovery, 2), (Discipline, 2),
         (Intellect, 2)]"
    by (simp add: combinations_twoHelmets observedBy_twoHelmets)
  from out(3) have each: "ranges stat =
       (if ignored (mixedFilter stat) then \<lparr>min_tier = 0, max_tier = 10\<rparr>
        else \<lparr>min_tier = Min (set (10 # tiersSeen
                  [(Mobility, 4), (Mobility, 2), (Resilience, 2), (Recovery, 2), (Discipline, 2),
                   (Intellect, 2)] stat)),
              max_tier = Max (set (0 # tiersSeen
                  [(Mobility, 4), (Mobility, 2), (Resilience, 2), (Recovery, 2), (Discipline, 2),
                   (Intellect, 2)] stat))\<rparr>)" for stat
    unfolding seen by (rule spec)
  have "ranges Strength = \<lparr>min_tier = 0, max_tier = 10\<rparr>"
    "ranges Mobility = \<lparr>min_tier = 2, max_tier = 4\<rparr>"
    "ranges Resilience = \<lparr>min_tier = 2, max_tier = 2\<rparr>"
    by (simp_all add: each tiersSeen_def mixedFilter_def)
  with out(1,2) show ?thesis by (simp add: mixedFilter_def)
qed

section \<open>The early rejection\<close>

lemma forEach_consults_all:
  assumes inv: "trackerInv s"
    and pass: "\<And>x r. x \<in> set xs \<Longrightarrow>
        fst (tierLoop tierOf sf (length so) cs (startTiers (combinedStats mods so cache x) r)) = False"
    and take: "\<And>x. x \<in> set xs \<Longrightarrow> canTake x"
  shows "\<exists>s'. forEach xs (evaluateCombination tierOf pw mods cache True canTake so cs sf) s = Inr s'
           \<and> trackerInv s'
           \<and> setCount s' = min (setCount s + length xs) RETURNED_ARMOR_SETS
           \<and> modChecks s' = modChecks s @ map (map itemId) xs"
  using assms
proof (induction xs arbitrary: s)
  case Nil
  then show ?case by (simp add: trackerInv_def)
next
  case (Cons x xs)
  let ?tl = "tierLoop tierOf sf (length so) cs
               (startTiers (combinedStats mods so cache x) (statRanges s))"
  have "fst ?tl = False" by (rule Cons.prems(2)) simp
  then obtain acc where tl: "?tl = (False, acc)" by (cases ?tl) auto
  from evaluateCombination_step [OF Cons.prems(1) tl, of pw True canTake] Cons.prems(3) [of x]
  obtain s1 where s1:
    "evaluateCombination tierOf pw mods cache True canTake so cs sf x s = Inr s1"
    "trackerInv s1"
    "modChecks s1 = modChecks s @ [map itemId x]"
    "setCount s1 = min (Suc (setCount s)) RETURNED_ARMOR_SETS"
    by auto
  have "\<exists>s'. forEach xs (evaluateCombination tierOf pw mods cache True canTake so cs sf) s1 = Inr s'
           \<and> trackerInv s'
           \<and> setCount s' = min (setCount s1 + length xs) RETURNED_ARMOR_SETS
           \<and> modChecks s' = modChecks s1 @ map (map itemId) xs"
    using s1(2) Cons.prems(2,3) by (intro Cons.IH) simp_all
  then obtain s' where s':
    "forEach xs (evaluateCombination tierOf pw mods cache True canTake so cs sf) s1 = Inr s'"
    "trackerInv s'"
    "setCount s' = min (setCount s1 + length xs) RETURNED_ARMOR_SETS"
    "modChecks s' = modChecks s1 @ map (map itemId) xs"
    by blast
  have "setCount s' = min (setCount s + length (x # xs)) RETURNED_ARMOR_SETS"
    using s'(3) s1(4) by simp
  with s1 s' show ?case by simp
qed

lemma evaluator_sample_general_mod:
  "evaluator sampleImports m [(100, [()])] mw so sf =
     evaluateCombination (\<lambda>v. v div 10) (\<lambda>items. sum_list (map basePower items)) m
       (\<lambda>item. getStatValuesWithMWProcess item mw (map (statHashes sampleImports) so))
       True (\<lambda>items. True) so (consideredStats so sf) sf"
  by (simp add: evaluator_def sortMods_def Let_def sampleImports_def)

lemma combinedStats_withHelmet:
  "combinedStats noMods allStats
     (\<lambda>item. getStatValuesWithMWProcess item mw (map (statHashes sampleImports) allStats))
     (withHelmet (sampleItem n None p v)) s = max v 0 + 8"
  by (cases s; simp add: combinedStats_def withHelmet_def statsCache_sampleItem addItemStats_def)
    (simp_all add: allStats_def noMods_def)

lemma noFilter_passes:
  assumes "\<And>s. 0 \<le> accStats acc s \<and> accStats acc s \<le> 100"
  shows "fst (tierLoop (\<lambda>v. v div 10) noFilter n ks acc) = False"
  using assms
proof (induction ks arbitrary: acc)
  case Nil
  then show ?case by simp
next
  case (Cons k ks)
  from Cons.prems [of k] have k: "\<not> accStats acc k > 100" "\<not> accStats acc k div 10 > 10"
    "\<not> accStats acc k div 10 < 0"
    by presburger+
  let ?acc1 = "acc\<lparr>accStats := accStats acc,
                   accRanges := (accRanges acc)(k := observeTier (accStats acc k div 10) (accRanges acc k)),
                   tiers := tiers acc @ showInt (accStats acc k div 10)
                              @ (if int (index acc) < int n - 1 then '','' else []),
                   totalTier := totalTier acc + accStats acc k div 10,
                   index := index acc + 1\<rparr>"
  have "fst (tierLoop (\<lambda>v. v div 10) noFilter n ks ?acc1) = False"
    by (rule Cons.IH) (simp add: Cons.prems)
  with k show ?case by (simp add: Let_def noFilter_def)
qed

lemma withHelmet_passes:
  assumes "v = 2 \<or> v = 0"
  shows "fst (tierLoop (\<lambda>v. v div 10) noFilter n ks
            (startTiers (combinedStats noMods allStats
               (\<lambda>item. getStatValuesWithMWProcess item mw (map (statHashes sampleImports) allStats))
               (withHelmet (sampleItem m None p v))) r)) = False"
  using assms by (intro noFilter_passes) (auto simp add: startTiers_def combinedStats_withHelmet)

lemma sortCandidates_manyHelmets:
  "sortCandidates sampleImports manyHelmets allStats noFilter = manyHelmetsSorted"
proof -
  let ?cmp = "compareByStatOrder 0 [1, 2, 3, 4, 5, 6]"
  have same: "arraySort ?cmp xs = xs"
    if "\<And>x. x \<in> set xs \<Longrightarrow> \<exists>n l p. x = sampleItem n l p 2" for xs
    using that by (rule arraySort_same_stats)
  have weak: "?cmp (sampleItem n l p 2) (sampleItem n' l' p' 0) \<le> 0" for n l p n' l' p'
    by (simp add: compareByStatOrder_def compareBy_def sampleItem_def)
  have "sorted_wrt (\<lambda>x y. ?cmp x y \<le> 0) (map goodHelm [0..<200] @ [sampleItem ''weak'' None 10 0])"
    by (auto simp add: sorted_wrt_append sorted_wrt_map goodHelm_def compare_sampleItem weak
        intro: sorted_wrt_mono_rel [of _ "\<lambda>x y. True"])
  then have "arraySort ?cmp (helms manyHelmetsSorted) = helms manyHelmetsSorted"
    by (simp add: manyHelmetsSorted_def arraySort_sorted)
  moreover have "arraySort ?cmp (gaunts manyHelmetsSorted) = gaunts manyHelmetsSorted"
    "arraySort ?cmp (chests manyHelmetsSorted) = chests manyHelmetsSorted"
    "arraySort ?cmp (legs manyHelmetsSorted) = legs manyHelmetsSorted"
    "arraySort ?cmp (classItems manyHelmetsSorted) = classItems manyHelmetsSorted"
    by (rule same; auto simp: manyHelmetsSorted_def)+
  ultimately show ?thesis
    by (simp add: sortCandidates_def Let_def manyHelmets_def bucketItems_def sampleImports_simps
        consideredStats_def allStats_def noFilter_def)
qed

lemma combinations_one_each:
  assumes "\<not> hasLabel g" and "\<not> hasLabel c" and "\<not> hasLabel l"
  shows "combinations \<lparr>helms = hs, gaunts = [g], chests = [c], legs = [l], classItems = [k]\<rparr>
           = map (\<lambda>helm. [helm, g, c, l, k]) hs"
  using assms by (induction hs) (simp_all add: combinations_def)

lemma combinations_manyHelmets:
  "combinations manyHelmetsSorted = map withHelmet (helms manyHelmetsSorted)"
proof -
  have "\<not> hasLabel (sampleItem n None p v)" for n p v
    by (simp add: hasLabel_def sampleItem_def)
  from combinations_one_each [OF this this this]
  have "combinations manyHelmetsSorted =
      map (\<lambda>helm. [helm, sampleItem ''g'' None 10 2, sampleItem ''c'' None 10 2,
                    sampleItem ''l'' None 10 2, sampleItem ''k'' None 10 2])
        (helms manyHelmetsSorted)"
    unfolding manyHelmetsSorted_def by simp
  then show ?thesis by (simp add: withHelmet_def [abs_def])
qed

text \<open>
  Claim C6. The claim fails on the code: the rejection stands under
  \<open>if (setCount <= RETURNED_ARMOR_SETS) ... else continue\<close>, and the count is never
  above 200 when a combination is considered, so no combination is ever skipped
  there (\<open>evaluateCombination_step\<close>: in every state that the enumeration
  reaches, a combination that passes the filters is handed to the mod predicate
  when there are mods). In the run below, with one general mod locked, the
  tracker holds 200 sets of Total Tier 6 when the last combination, of Total
  Tier 0, is considered; the predicate is consulted for it all the same: 201
  calls are logged, the last of them for the weak helmet, and 200 sets are
  returned.
\<close>

theorem low_tier_combination_is_checked_when_tracker_is_full:
  "\<exists>out. process sampleImports manyHelmets noMods [(100, [()])] False allStats noFilter = Inr out
        \<and> length (sets (returned out)) = 200
        \<and> length (modChecksDone out) = 201
        \<and> last (modChecksDone out) = [''weak'', ''g'', ''c'', ''l'', ''k'']"
proof -
  let ?ev = "evaluateCombination (\<lambda>v. v div 10) (\<lambda>items. sum_list (map basePower items)) noMods
       (\<lambda>item. getStatValuesWithMWProcess item False (map (statHashes sampleImports) allStats))
       True (\<lambda>items. True) allStats (consideredStats allStats noFilter) noFilter"
  let ?xs = "map withHelmet (helms manyHelmetsSorted)"
  have cs: "consideredStats allStats noFilter = allStats"
    by (simp add: consideredStats_def noFilter_def)
  have pass: "fst (tierLoop (\<lambda>v. v div 10) noFilter (length allStats)
        (consideredStats allStats noFilter)
        (startTiers (combinedStats noMods allStats
           (\<lambda>item. getStatValuesWithMWProcess item False (map (statHashes sampleImports) allStats))
           x) r)) = False"
    if "x \<in> set ?xs" for x r
  proof -
    from that obtain n v where "x = withHelmet (sampleItem n None 10 v)" "v = 2 \<or> v = 0"
      by (auto simp: manyHelmetsSorted_def goodHelm_def)
    then show ?thesis
      using withHelmet_passes [of v "length allStats" "consideredStats allStats noFilter"
          False n 10 r] by simp
  qed
  from forEach_consults_all [OF trackerInv_initialState, of ?xs "\<lambda>v. v div 10" noFilter allStats
      "consideredStats allStats noFilter" noMods _ "\<lambda>items. True", OF pass]
  obtain st where st:
    "forEach ?xs ?ev (initialState noFilter) = Inr st" "trackerInv st"
    "setCount st = min (setCount (initialState noFilter) + length ?xs) RETURNED_ARMOR_SETS"
    "modChecks st = modChecks (initialState noFilter) @ map (map itemId) ?xs"
    by blast
  have len: "length ?xs = 201" by (simp add: manyHelmetsSorted_def)
  from st(3) len have "setCount st = 200"
    by (simp add: initialState_def RETURNED_ARMOR_SETS_def)
  with st(2) have flat: "length (flatTracker (setTracker st)) = 200"
    by (simp add: trackerInv_def)
  have log: "modChecks st = map (map itemId) ?xs"
    using st(4) by (simp add: initialState_def)
  have lastlog: "last (modChecks st) = [''weak'', ''g'', ''c'', ''l'', ''k'']"
    unfolding log by (simp add: manyHelmetsSorted_def last_map withHelmet_def sampleItem_def)
  have "comboCount manyHelmetsSorted \<le> combosLimit" "comboCount manyHelmetsSorted \<noteq> 0"
    by (simp_all add: comboCount_def manyHelmetsSorted_def combosLimit_def)
  note run = process_no_trim [OF sortCandidates_manyHelmets this]
  show ?thesis
    unfolding run combinations_manyHelmets evaluator_sample_general_mod
    using st(1) flat lastlog len by (simp add: log length_flattenSets)
qed

section \<open>A full tracker\<close>















end
